theory Spec2Isabelle
  imports Complex_Main "HOL-Library.AList"
begin

section \<open>Data model\<close>

text \<open>
  The program of \<^verbatim>\<open>src/main.py\<close> works on one pandas DataFrame: a date index and
  named columns of floating-point cells. Floating-point numbers are modelled as real
  numbers: rounding is outside the model, and so is overflow, but for the one place
  where an infinite value changes which cells are missing, the quotient of two prices
  (see \<open>fdiv_minus_one\<close> below). The missing value NaN of a cell is \<open>None\<close>. A column is a list of cells, the columns are an association list in column
  order, and dates are timestamps.
\<close>

type_synonym cell = "real option"

type_synonym series = "cell list"

record dataframe =
  index :: "int list"
  columns :: "(string \<times> series) list"

datatype error = KeyError string | ProviderError string

definition nrows :: "dataframe \<Rightarrow> nat" where
  "nrows df = length (index df)"

text \<open>What pandas guarantees of every DataFrame this program sees: each column is as long
  as the index, and (for the frames of the provider) column names are not repeated.\<close>

definition wf_frame :: "dataframe \<Rightarrow> bool" where
  "wf_frame df \<longleftrightarrow>
     list_all (\<lambda>c. length (snd c) = length (index df)) (columns df) \<and>
     distinct (map fst (columns df))"

text \<open>\<^verbatim>\<open>df.empty\<close>: one of the two axes has length 0.\<close>

definition empty_frame :: "dataframe \<Rightarrow> bool" where
  "empty_frame df \<longleftrightarrow> index df = [] \<or> columns df = []"

text \<open>The column of a name, if the table has one.\<close>

definition column :: "dataframe \<Rightarrow> string \<Rightarrow> series option" where
  "column df k = map_of (columns df) k"

text \<open>\<^verbatim>\<open>data['Close']\<close> raises \<^verbatim>\<open>KeyError\<close> on a missing column.\<close>

definition getitem :: "dataframe \<Rightarrow> string \<Rightarrow> error + series" where
  "getitem df k = (case map_of (columns df) k of None \<Rightarrow> Inl (KeyError k) | Some c \<Rightarrow> Inr c)"

text \<open>\<^verbatim>\<open>data['SMA_50'] = ...\<close> replaces a column of that name where it stands, and appends
  the column at the end when the name is new.\<close>

definition setitem :: "dataframe \<Rightarrow> string \<Rightarrow> series \<Rightarrow> dataframe" where
  "setitem df k v = df\<lparr>columns := AList.update k v (columns df)\<rparr>"

section \<open>The pandas primitives the program calls\<close>

subsection \<open>Rolling windows\<close>

text \<open>The window of width \<open>w\<close> that ends at position \<open>i\<close>: positions \<open>i - w + 1 .. i\<close>,
  cut at the start of the series.\<close>

definition window :: "nat \<Rightarrow> nat \<Rightarrow> 'a list \<Rightarrow> 'a list" where
  "window w i xs = drop (Suc i - w) (take (Suc i) xs)"

definition observations :: "series \<Rightarrow> real list" where
  "observations xs = List.map_filter (\<lambda>x. x) xs"

definition mean :: "real list \<Rightarrow> real" where
  "mean xs = sum_list xs / real (length xs)"

text \<open>\<^verbatim>\<open>rolling(window=w).mean()\<close>, window by window: \<^verbatim>\<open>min_periods\<close> defaults to the
  window, and a window with fewer observations (cells that are not NaN), or with none,
  gives NaN.\<close>

definition rolling_mean :: "nat \<Rightarrow> series \<Rightarrow> series" where
  "rolling_mean w xs =
     map (\<lambda>i. let obs = observations (window w i xs)
              in if w \<le> length obs \<and> 0 < length obs then Some (mean obs) else None)
       [0..<length xs]"

subsection \<open>Percentage change\<close>

text \<open>A quotient of two cells is a number, NaN, or infinite: floating-point division
  raises nothing. It is infinite for a nonzero number over zero, and also when the
  quotient leaves the range of binary64: a number whose absolute value is at least
  \<open>(2 - 1 / 2 ^ 53) * 2 ^ 1023\<close>, half a unit in the last place above the largest
  float, is rounded to infinity. Subtracting 1 from a finite quotient stays finite.\<close>

datatype ret = RNaN | RInf | RFin real

definition overflows :: "real \<Rightarrow> bool" where
  "overflows x \<longleftrightarrow> (2 - 1 / 2 ^ 53) * 2 ^ 1023 \<le> \<bar>x\<bar>"

fun ffill_from :: "cell \<Rightarrow> series \<Rightarrow> series" where
  "ffill_from prev [] = []"
| "ffill_from prev (None # xs) = prev # ffill_from prev xs"
| "ffill_from prev (Some v # xs) = Some v # ffill_from (Some v) xs"

definition ffill :: "series \<Rightarrow> series" where
  "ffill xs = ffill_from None xs"

definition shift :: "series \<Rightarrow> series" where
  "shift xs = take (length xs) (None # xs)"

fun fdiv_minus_one :: "cell \<Rightarrow> cell \<Rightarrow> ret" where
  "fdiv_minus_one (Some a) (Some b) =
     (if b = 0 then (if a = 0 then RNaN else RInf)
      else if overflows (a / b) then RInf
      else RFin (a / b - 1))"
| "fdiv_minus_one _ _ = RNaN"

text \<open>\<^verbatim>\<open>pct_change()\<close> with its defaults: missing prices are filled forward
  (\<^verbatim>\<open>fill_method='pad'\<close>), then \<^verbatim>\<open>data / data.shift(1) - 1\<close>.\<close>

definition pct_change :: "series \<Rightarrow> ret list" where
  "pct_change xs = (let d = ffill xs in map2 fdiv_minus_one d (shift d))"

subsection \<open>Rolling standard deviation\<close>

fun finite_values :: "ret list \<Rightarrow> real list option" where
  "finite_values [] = Some []"
| "finite_values (RFin x # rs) = map_option ((#) x) (finite_values rs)"
| "finite_values (_ # rs) = None"

definition sample_var :: "real list \<Rightarrow> real" where
  "sample_var xs = (\<Sum>x\<leftarrow>xs. (x - mean xs)\<^sup>2) / (real (length xs) - 1)"

definition sample_std :: "real list \<Rightarrow> real" where
  "sample_std xs = sqrt (sample_var xs)"

text \<open>\<^verbatim>\<open>rolling(window=w).std()\<close> (\<^verbatim>\<open>ddof=1\<close>): NaN entries of the window are not
  observations; with fewer than \<open>w\<close> observations, or not more than one, the result is
  NaN; an infinite observation makes the deviation NaN (pandas takes it for a missing
  one, which leaves a window of \<open>w\<close> cells with fewer than \<open>w\<close> observations).\<close>

definition rolling_std :: "nat \<Rightarrow> ret list \<Rightarrow> series" where
  "rolling_std w rs =
     map (\<lambda>i. let obs = filter (\<lambda>r. r \<noteq> RNaN) (window w i rs)
              in if w \<le> length obs \<and> 1 < length obs
                 then map_option sample_std (finite_values obs) else None)
       [0..<length rs]"

subsection \<open>Exponentially weighted mean\<close>

text \<open>
  \<^verbatim>\<open>ewm(com=c).mean()\<close> with its defaults \<^verbatim>\<open>adjust=True\<close>, \<^verbatim>\<open>ignore_na=False\<close>,
  \<^verbatim>\<open>min_periods=0\<close> is one pass over the series. Its state is the running average
  \<open>weighted\<close>, the weight \<open>old_wt\<close> of that average and the number of observations;
  \<open>f = 1 - alpha\<close> is the decay of one step and the new observation has weight 1.
  A missing cell ages the weight and leaves the average; before the first observation
  the output is NaN. (Where the new cell equals the average pandas skips the update,
  which would return the same number.)
\<close>

type_synonym ewm_state = "cell \<times> real \<times> nat"

fun ewm_step :: "real \<Rightarrow> ewm_state \<Rightarrow> cell \<Rightarrow> ewm_state" where
  "ewm_step f (Some wavg, old_wt, nobs) (Some cur) =
     (let old_wt' = old_wt * f
      in (Some ((old_wt' * wavg + 1 * cur) / (old_wt' + 1)), old_wt' + 1, Suc nobs))"
| "ewm_step f (Some wavg, old_wt, nobs) None = (Some wavg, old_wt * f, nobs)"
| "ewm_step f (None, old_wt, nobs) (Some cur) = (Some cur, old_wt, Suc nobs)"
| "ewm_step f (None, old_wt, nobs) None = (None, old_wt, nobs)"

fun ewm_out :: "ewm_state \<Rightarrow> cell" where
  "ewm_out (weighted, old_wt, nobs) = (if 1 \<le> nobs then weighted else None)"

fun ewm_loop :: "real \<Rightarrow> ewm_state \<Rightarrow> series \<Rightarrow> series" where
  "ewm_loop f st [] = []"
| "ewm_loop f st (cur # rest) = (let st' = ewm_step f st cur in ewm_out st' # ewm_loop f st' rest)"

fun ewm_mean :: "real \<Rightarrow> series \<Rightarrow> series" where
  "ewm_mean com [] = []"
| "ewm_mean com (x # xs) =
     (let alpha = 1 / (1 + com);
          st = (x, 1, if x = None then 0 else 1)
      in ewm_out st # ewm_loop (1 - alpha) st xs)"

subsection \<open>Dropping incomplete rows, the last rows\<close>

text \<open>\<^verbatim>\<open>dropna()\<close> with its defaults keeps the rows in which no column is NaN, in their
  order. The cells of row \<open>i\<close> are read at position \<open>i\<close> of each column, which exists
  in a well-formed table.\<close>

definition complete_rows :: "dataframe \<Rightarrow> bool list" where
  "complete_rows df =
     map (\<lambda>i. list_all (\<lambda>c. snd c ! i \<noteq> None) (columns df)) [0..<length (index df)]"

definition select :: "bool list \<Rightarrow> 'a list \<Rightarrow> 'a list" where
  "select keep xs = map fst (filter snd (zip xs keep))"

definition dropna :: "dataframe \<Rightarrow> dataframe" where
  "dropna df =
     (let keep = complete_rows df
      in \<lparr>index = select keep (index df),
          columns = map (\<lambda>c. (fst c, select keep (snd c))) (columns df)\<rparr>)"

definition last_rows :: "nat \<Rightarrow> 'a list \<Rightarrow> 'a list" where
  "last_rows k xs = drop (length xs - k) xs"

text \<open>\<^verbatim>\<open>tail(k)\<close>: the last \<open>k\<close> rows, all rows when there are fewer.\<close>

definition tail :: "nat \<Rightarrow> dataframe \<Rightarrow> dataframe" where
  "tail k df =
     \<lparr>index = last_rows k (index df),
      columns = map (\<lambda>c. (fst c, last_rows k (snd c))) (columns df)\<rparr>"

subsection \<open>Prices whose returns stay in range\<close>

text \<open>
  The quotients of successive prices are at most \<open>2 ^ 500\<close> in absolute value. Then no
  quotient overflows, and the returns are small enough for the squares of their
  deviations, and the sums of 50 of them, to stay in the range of binary64 as well, so
  that the standard deviation of a window is the number that \<open>sample_std\<close> gives, up to
  rounding.
\<close>

definition returns_in_range :: "real list \<Rightarrow> bool" where
  "returns_in_range C \<longleftrightarrow> list_all (\<lambda>j. \<bar>C ! j / C ! (j - 1)\<bar> \<le> 2 ^ 500) [1..<length C]"

section \<open>The program\<close>

text \<open>What the program prints: a line of text, a table, or the elapsed time (whose
  two-decimal formatting is not modelled).\<close>

datatype printed = Text string | Table dataframe | Elapsed real

type_synonym provider = "string \<Rightarrow> string \<Rightarrow> string \<Rightarrow> error + dataframe"

text \<open>\<^verbatim>\<open>fetch_data\<close>: the provider \<^verbatim>\<open>yf.download\<close> is a parameter; it returns a table or
  raises.\<close>

definition fetch_data ::
  "provider \<Rightarrow> string \<Rightarrow> string \<Rightarrow> string \<Rightarrow> printed list \<times> (error + dataframe)" where
  "fetch_data download ticker_symbol start_date end_date =
     (let line1 = Text (''Fetching data for '' @ ticker_symbol @ '' from '' @ start_date
                         @ '' to '' @ end_date @ ''...'')
      in case download ticker_symbol start_date end_date of
           Inl e \<Rightarrow> ([line1], Inl e)
         | Inr data \<Rightarrow> ([line1, Text ''Data fetched successfully!''], Inr data))"

text \<open>Line 45 of the source, \<^verbatim>\<open>daily_returns = data['Close'].pct_change()\<close>.\<close>

definition daily_returns :: "dataframe \<Rightarrow> error + ret list" where
  "daily_returns data =
     (case getitem data ''Close'' of Inl e \<Rightarrow> Inl e | Inr close \<Rightarrow> Inr (pct_change close))"

text \<open>The three assignments of \<^verbatim>\<open>calculate_indicators\<close> (lines 34, 40 and 45 to 47 of
  the source), in their order; each reads the column \<^verbatim>\<open>Close\<close> of the table as it is at
  that moment, and a table without that column raises \<^verbatim>\<open>KeyError\<close> at the first.\<close>

definition indicators :: "dataframe \<Rightarrow> error + dataframe" where
  "indicators data =
     (case getitem data ''Close'' of
        Inl e \<Rightarrow> Inl e
      | Inr close1 \<Rightarrow>
         (let data1 = setitem data ''SMA_50'' (rolling_mean 50 close1)
          in (case getitem data1 ''Close'' of
                Inl e \<Rightarrow> Inl e
              | Inr close2 \<Rightarrow>
                 (let data2 = setitem data1 ''EMA_21'' (ewm_mean 21 close2)
                  in (case daily_returns data2 of
                        Inl e \<Rightarrow> Inl e
                      | Inr returns \<Rightarrow>
                         Inr (setitem data2 ''Volatility_50''
                                (rolling_std 50 returns)))))))"

text \<open>\<^verbatim>\<open>calculate_indicators\<close> with the two lines it prints; the second is not reached
  when the computation raises.\<close>

definition calculate_indicators :: "dataframe \<Rightarrow> printed list \<times> (error + dataframe)" where
  "calculate_indicators data =
     (case indicators data of
        Inl e \<Rightarrow> ([Text ''Calculating financial indicators...''], Inl e)
      | Inr data' \<Rightarrow>
          ([Text ''Calculating financial indicators...'', Text ''Indicators calculated.''],
           Inr data'))"

text \<open>\<^verbatim>\<open>analyze_performance\<close>: the rows without a missing value, and of them the last
  five, printed.\<close>

definition analyze_performance :: "dataframe \<Rightarrow> printed list" where
  "analyze_performance data =
     (let final_data = dropna data
      in [Text (CHR 0x0A # ''--- Analysis Complete ---''),
          Text ''Displaying the last 5 days of data with indicators:'',
          Table (tail 5 final_data)])"

text \<open>The main block, for a requested instrument and date range; \<open>start_time\<close> and
  \<open>end_time\<close> are the two readings of the clock. A raised exception ends the run with the
  output printed so far.\<close>

definition run ::
  "provider \<Rightarrow> string \<Rightarrow> string \<Rightarrow> string \<Rightarrow> real \<Rightarrow> real \<Rightarrow> printed list \<times> (error + unit)" where
  "run download ticker start end_date start_time end_time =
     (case fetch_data download ticker start end_date of
        (out1, Inl e) \<Rightarrow> (out1, Inl e)
      | (out1, Inr stock_data) \<Rightarrow>
          if \<not> empty_frame stock_data then
            (case calculate_indicators stock_data of
               (out2, Inl e) \<Rightarrow> (out1 @ out2, Inl e)
             | (out2, Inr stock_data_with_indicators) \<Rightarrow>
                 (out1 @ out2 @ analyze_performance stock_data_with_indicators
                    @ [Elapsed (end_time - start_time)], Inr ()))
          else
            (out1 @ [Text (''Could not download data for '' @ ticker
                           @ ''. Please check the symbol and date range.'')]
                  @ [Elapsed (end_time - start_time)], Inr ()))"

definition main :: "provider \<Rightarrow> real \<Rightarrow> real \<Rightarrow> printed list \<times> (error + unit)" where
  "main download start_time end_time =
     run download ''NVDA'' ''2020-01-01'' ''2025-01-01'' start_time end_time"

section \<open>Scenarios\<close>

text \<open>Synthetic tables: one whose only column is the given closing prices, one of \<open>n\<close>
  rows with a constant closing price, and the same with a column \<^verbatim>\<open>Volume\<close> beside
  it.\<close>

definition close_frame :: "series \<Rightarrow> dataframe" where
  "close_frame c = \<lparr>index = map int [0..<length c], columns = [(''Close'', c)]\<rparr>"

definition constant_frame :: "nat \<Rightarrow> real \<Rightarrow> dataframe" where
  "constant_frame n p = close_frame (replicate n (Some p))"

definition volume_frame :: "nat \<Rightarrow> real \<Rightarrow> series \<Rightarrow> dataframe" where
  "volume_frame n p vol =
     \<lparr>index = map int [0..<n], columns = [(''Close'', replicate n (Some p)), (''Volume'', vol)]\<rparr>"

text \<open>Two prices whose quotient leaves the range of binary64, in a series of \<open>n + 1\<close>
  rows: one price of \<open>1e-300\<close>, then the price \<open>1e300\<close>.\<close>

definition jump_frame :: "nat \<Rightarrow> dataframe" where
  "jump_frame n = close_frame (Some (1 / 10 ^ 300) # replicate n (Some (10 ^ 300)))"

text \<open>A provider that finds nothing: a table with its columns and no row.\<close>

definition empty_provider :: provider where
  "empty_provider ticker start end_date = Inr (close_frame [])"

section \<open>Windows and the rolling mean of a series without gaps\<close>

lemma observations_map_Some: "observations (map Some xs) = xs"
  by (induction xs) (simp_all add: observations_def List.map_filter_simps)

lemma window_map: "window w i (map f xs) = map f (window w i xs)"
  by (simp add: window_def take_map drop_map)

lemma length_window: "i < length xs \<Longrightarrow> length (window w i xs) = min w (Suc i)"
  by (auto simp: window_def)

lemma window_conv_upt:
  "i < length xs \<Longrightarrow> window w i xs = map ((!) xs) [Suc i - w..<Suc i]"
proof (rule nth_equalityI)
  assume i: "i < length xs"
  show "length (window w i xs) = length (map ((!) xs) [Suc i - w..<Suc i])"
    using i by (auto simp: window_def)
next
  fix k
  assume i: "i < length xs" and "k < length (window w i xs)"
  then have k: "Suc i - w + k < Suc i"
    by (auto simp: window_def)
  then show "window w i xs ! k = map ((!) xs) [Suc i - w..<Suc i] ! k"
    using i by (simp add: window_def nth_map_upt del: upt_Suc)
qed

lemma sum_list_window:
  fixes xs :: "real list"
  shows "i < length xs \<Longrightarrow> sum_list (window w i xs) = (\<Sum>j = Suc i - w..i. xs ! j)"
  by (simp add: window_conv_upt interv_sum_list_conv_sum_set_nat atLeastLessThanSuc_atLeastAtMost del: upt_Suc)

lemma rolling_mean_present:
  "0 < w \<Longrightarrow> rolling_mean w (map Some C) =
     map (\<lambda>i. if Suc i < w then None else Some ((\<Sum>j = Suc i - w..i. C ! j) / real w)) [0..<length C]"
  by (auto simp: rolling_mean_def window_map observations_map_Some length_window Let_def mean_def sum_list_window min_def simp del: upt_Suc length_greater_0_conv)

section \<open>Percentage changes of a series without gaps\<close>

lemma ffill_from_present: "ffill_from p (map Some C) = map Some C"
  by (induction C arbitrary: p) simp_all

lemma pct_change_Cons: "pct_change (x # xs) = RNaN # tl (pct_change (x # xs))"
  by (cases x) (simp_all add: pct_change_def ffill_def shift_def Let_def)

lemma length_ffill_from: "length (ffill_from p xs) = length xs"
  by (induction p xs rule: ffill_from.induct) simp_all

lemma length_pct_change: "length (pct_change xs) = length xs"
  by (simp add: pct_change_def ffill_def shift_def Let_def length_ffill_from)

lemma pct_change_present_nth:
  assumes "i < length C"
  shows "pct_change (map Some C) ! i =
     (if i = 0 then RNaN else fdiv_minus_one (Some (C ! i)) (Some (C ! (i - 1))))"
  using assms
  by (cases i) (simp_all add: pct_change_def ffill_def ffill_from_present shift_def Let_def)

lemma jump_quotient: "10 ^ 300 / (1 / 10 ^ 300) = (10::real) ^ 600"
proof -
  have "(10::real) ^ 600 = 10 ^ 300 * 10 ^ 300"
    unfolding power_add [symmetric] by (simp del: power_numeral)
  then show ?thesis
    by (simp del: power_numeral)
qed

lemma jump_overflows: "overflows (10 ^ 300 / (1 / 10 ^ 300))"
proof -
  have "(2 - 1 / 2 ^ 53) * 2 ^ 1023 \<le> (2::real) ^ 1 * 2 ^ 1023"
    by (intro mult_right_mono) (simp_all del: power_numeral)
  also have "\<dots> = (2 ^ 4) ^ 256"
    unfolding power_add [symmetric] power_mult [symmetric] by (simp del: power_numeral)
  also have "\<dots> \<le> (10 ^ 2) ^ 256"
    by (intro power_mono) simp_all
  also have "\<dots> \<le> (10::real) ^ 600"
    unfolding power_mult [symmetric] by (intro power_increasing) simp_all
  finally show ?thesis
    unfolding jump_quotient overflows_def by (simp del: power_numeral)
qed

lemma threshold_large: "(2::real) ^ 500 < (2 - 1 / 2 ^ 53) * 2 ^ 1023"
proof -
  have "(1::real) \<le> 2 - 1 / 2 ^ 53"
    by (simp add: field_simps)
  then have "1 * (2::real) ^ 1023 \<le> (2 - 1 / 2 ^ 53) * 2 ^ 1023"
    by (intro mult_right_mono) (simp_all del: power_numeral)
  then have "(2::real) ^ 1023 \<le> (2 - 1 / 2 ^ 53) * 2 ^ 1023"
    by (simp del: power_numeral)
  moreover have "(2::real) ^ 500 < 2 ^ 1023"
    by (rule power_strict_increasing) simp_all
  ultimately show ?thesis
    by (rule less_le_trans [rotated])
qed

lemma not_overflows_small:
  assumes "\<bar>x\<bar> \<le> 2"
  shows "\<not> overflows x"
proof -
  have "(2::real) ^ 1 \<le> 2 ^ 500"
    by (rule power_increasing) simp_all
  then have "\<bar>x\<bar> \<le> 2 ^ 500"
    using assms by (simp del: power_numeral)
  then have "\<bar>x\<bar> < (2 - 1 / 2 ^ 53) * 2 ^ 1023"
    using threshold_large by (rule le_less_trans)
  then show ?thesis
    by (simp add: overflows_def del: power_numeral)
qed

lemma in_range_no_overflow:
  assumes "returns_in_range C" and "1 \<le> j" and "j < length C"
  shows "\<not> overflows (C ! j / C ! (j - 1))"
proof -
  have "\<bar>C ! j / C ! (j - 1)\<bar> \<le> 2 ^ 500"
    using assms by (simp add: returns_in_range_def list_all_iff del: power_numeral)
  then have "\<bar>C ! j / C ! (j - 1)\<bar> < (2 - 1 / 2 ^ 53) * 2 ^ 1023"
    using threshold_large by (rule le_less_trans)
  then show ?thesis
    by (simp add: overflows_def del: power_numeral)
qed

lemma pct_change_nonzero:
  assumes "\<forall>x\<in>set C. x \<noteq> 0" and "returns_in_range C"
  shows "pct_change (map Some C) =
     map (\<lambda>j. if j = 0 then RNaN else RFin (C ! j / C ! (j - 1) - 1)) [0..<length C]"
proof (rule nth_equalityI)
  show "length (pct_change (map Some C)) = length (map (\<lambda>j. if j = 0 then RNaN else RFin (C ! j / C ! (j - 1) - 1)) [0..<length C])"
    by (simp add: length_pct_change)
next
  fix i
  assume "i < length (pct_change (map Some C))"
  then have i: "i < length C"
    by (simp add: length_pct_change)
  then have "C ! (i - 1) \<noteq> 0"
    using assms(1) by (simp add: less_imp_diff_less)
  moreover have "\<not> overflows (C ! i / C ! (i - 1))" if "i \<noteq> 0"
    using assms(2) _ i by (rule in_range_no_overflow) (use that in simp)
  ultimately show "pct_change (map Some C) ! i =
      map (\<lambda>j. if j = 0 then RNaN else RFin (C ! j / C ! (j - 1) - 1)) [0..<length C] ! i"
    using i by (simp add: pct_change_present_nth)
qed

lemma finite_values_RFin: "finite_values (map (\<lambda>j. RFin (g j)) js) = Some (map g js)"
  by (induction js) simp_all

lemma finite_values_replicate: "finite_values (replicate k (RFin x)) = Some (replicate k x)"
  by (induction k) simp_all

lemma filter_upt_pos: "filter (\<lambda>j. j \<noteq> 0) [a..<b] = [max a 1..<b]"
proof (cases a)
  case 0
  show ?thesis
  proof (cases "b = 0")
    case True
    then show ?thesis by simp
  next
    case False
    then have "[a..<b] = 0 # [1..<b]"
      using 0 by (simp add: upt_conv_Cons)
    moreover have "filter (\<lambda>j. j \<noteq> 0) [1..<b] = [1..<b]"
      by (rule filter_True) simp
    ultimately show ?thesis
      using 0 by simp
  qed
next
  case (Suc k)
  then have "filter (\<lambda>j. j \<noteq> 0) [a..<b] = [a..<b]"
    by (intro filter_True) simp
  then show ?thesis
    using Suc by (simp add: max_def)
qed

section \<open>The rolling standard deviation of the returns\<close>

lemma window_map_upt:
  "i < n \<Longrightarrow> window w i (map g [0..<n]) = map g [Suc i - w..<Suc i]"
proof -
  assume i: "i < n"
  have "window w i (map g [0..<n]) = map g (window w i [0..<n])"
    by (rule window_map)
  also have "window w i [0..<n] = map ((!) [0..<n]) [Suc i - w..<Suc i]"
    using i by (simp add: window_conv_upt)
  also have "\<dots> = [Suc i - w..<Suc i]"
    using i by (intro map_idI) (simp del: upt_Suc)
  finally show ?thesis .
qed

lemma filter_returns:
  "filter (\<lambda>r. r \<noteq> RNaN) (map (\<lambda>j. if j = 0 then RNaN else RFin (g j)) js)
     = map (\<lambda>j. RFin (g j)) (filter (\<lambda>j. j \<noteq> 0) js)"
  by (induction js) simp_all

lemma observed_returns:
  assumes "i < n"
  shows "filter (\<lambda>r. r \<noteq> RNaN)
           (window 50 i (map (\<lambda>j. if j = 0 then RNaN else RFin (g j)) [0..<n]))
         = map (\<lambda>j. RFin (g j)) [max (Suc i - 50) 1..<Suc i]"
  unfolding window_map_upt [OF assms] filter_returns filter_upt_pos ..

lemma std_window_returns:
  assumes "i < n"
  shows "(let obs = filter (\<lambda>r. r \<noteq> RNaN)
                 (window 50 i (map (\<lambda>j. if j = 0 then RNaN else RFin (g j)) [0..<n]))
          in if 50 \<le> length obs \<and> 1 < length obs
             then map_option sample_std (finite_values obs) else None)
       = (if i < 50 then None else Some (sample_std (map g [i - 49..<Suc i])))"
proof (cases "i < 50")
  case True
  then have "length (map (\<lambda>j. RFin (g j)) [max (Suc i - 50) 1..<Suc i]) < 50"
    by simp
  then show ?thesis
    unfolding observed_returns [OF assms] Let_def using True by (simp del: upt_Suc)
next
  case False
  then have "max (Suc i - 50) 1 = i - 49"
    by arith
  then show ?thesis
    unfolding observed_returns [OF assms] Let_def using False
    by (simp add: finite_values_RFin del: upt_Suc)
qed

lemma rolling_std_returns:
  assumes "\<forall>x\<in>set C. x \<noteq> 0" and "returns_in_range C"
  shows "rolling_std 50 (pct_change (map Some C)) =
     map (\<lambda>i. if i < 50 then None
              else Some (sample_std (map (\<lambda>j. C ! j / C ! (j - 1) - 1) [i - 49..<Suc i])))
       [0..<length C]"
  unfolding pct_change_nonzero [OF assms] rolling_std_def
proof (rule map_cong)
  show "[0..<length (map (\<lambda>j. if j = 0 then RNaN else RFin (C ! j / C ! (j - 1) - 1))
      [0..<length C])] = [0..<length C]"
    by simp
next
  fix i
  assume "i \<in> set [0..<length C]"
  then have "i < length C"
    by simp
  then show "(let obs = filter (\<lambda>r. r \<noteq> RNaN) (window 50 i
        (map (\<lambda>j. if j = 0 then RNaN else RFin (C ! j / C ! (j - 1) - 1)) [0..<length C]))
      in if 50 \<le> length obs \<and> 1 < length obs
         then map_option sample_std (finite_values obs) else None) =
      (if i < 50 then None
       else Some (sample_std (map (\<lambda>j. C ! j / C ! (j - 1) - 1) [i - 49..<Suc i])))"
    by (rule std_window_returns)
qed

lemma sum_list_upt_Suc:
  fixes f :: "nat \<Rightarrow> real"
  shows "sum_list (map f [a..<Suc b]) = (\<Sum>j = a..b. f j)"
  by (simp add: interv_sum_list_conv_sum_set_nat atLeastLessThanSuc_atLeastAtMost del: upt_Suc)

lemma sample_std_window:
  assumes "49 \<le> i"
  shows "sample_std (map r [i - 49..<Suc i]) =
     sqrt ((\<Sum>j = i - 49..i. (r j - (\<Sum>k = i - 49..i. r k) / 50)\<^sup>2) / 49)"
proof -
  have len: "length [i - 49..<Suc i] = 50"
    using assms by simp
  have "mean (map r [i - 49..<Suc i]) = (\<Sum>k = i - 49..i. r k) / 50"
    unfolding mean_def sum_list_upt_Suc using len by simp
  moreover have "(\<Sum>x\<leftarrow>map r [i - 49..<Suc i]. (x - m)\<^sup>2) = (\<Sum>j = i - 49..i. (r j - m)\<^sup>2)" for m
    using sum_list_upt_Suc [of "\<lambda>j. (r j - m)\<^sup>2"] by (simp add: comp_def del: upt_Suc)
  ultimately show ?thesis
    unfolding sample_std_def sample_var_def using len by (simp only: length_map) simp
qed

lemma length_rolling_std: "length (rolling_std w rs) = length rs"
  by (simp add: rolling_std_def)

lemma sample_std_zeros: "sample_std (replicate k 0) = 0"
  by (simp add: sample_std_def sample_var_def mean_def sum_list_replicate)

lemma constant_in_range:
  assumes "p \<noteq> 0"
  shows "returns_in_range (replicate n p)"
proof -
  have "(1::real) \<le> 2 ^ 500"
    by (rule one_le_power) simp
  then have "\<bar>replicate n p ! j / replicate n p ! (j - 1)\<bar> \<le> 2 ^ 500"
    if "j \<in> set [1..<n]" for j
  proof -
    have "j < n" and "j - 1 < n"
      using that by auto
    then show ?thesis
      using assms \<open>1 \<le> 2 ^ 500\<close> by (simp only: nth_replicate) (simp del: power_numeral)
  qed
  then show ?thesis
    by (simp add: returns_in_range_def list_all_iff del: power_numeral)
qed

section \<open>The exponentially weighted mean in closed form\<close>

text \<open>The loop of \<^verbatim>\<open>ewm\<close> is read off position by position: the cell at position \<open>k\<close> is
  the output of the state reached after the first \<open>k + 1\<close> steps.\<close>

lemma ewm_loop_nth:
  "k < length cs \<Longrightarrow>
     ewm_loop f st cs ! k = ewm_out (foldl (ewm_step f) st (take (Suc k) cs))"
proof (induction cs arbitrary: st k)
  case Nil
  then show ?case by simp
next
  case (Cons c cs)
  then show ?case
    by (cases k) (simp_all add: Let_def)
qed

lemma length_ewm_loop: "length (ewm_loop f st cs) = length cs"
  by (induction cs arbitrary: st) (simp_all add: Let_def)

lemma length_ewm_mean: "length (ewm_mean com xs) = length xs"
  by (cases xs) (simp_all add: Let_def length_ewm_loop)

lemma weight_sum_Suc:
  fixes f :: real
  shows "(\<Sum>j\<le>Suc k. f ^ (Suc k - j) * g j) = f * (\<Sum>j\<le>k. f ^ (k - j) * g j) + g (Suc k)"
proof -
  have "(\<Sum>j\<le>k. f ^ (Suc k - j) * g j) = (\<Sum>j\<le>k. f * (f ^ (k - j) * g j))"
    by (rule sum.cong) (simp_all add: Suc_diff_le)
  then show ?thesis
    by (simp add: sum_distrib_left)
qed

lemma weight_sum_pos:
  fixes f :: real
  assumes "0 \<le> f"
  shows "0 < (\<Sum>j\<le>k. f ^ (k - j))"
proof -
  have "(\<Sum>j\<le>k. f ^ (k - j)) = (\<Sum>j<k. f ^ (k - j)) + 1"
    by (simp add: lessThan_Suc_atMost [symmetric])
  moreover have "0 \<le> (\<Sum>j<k. f ^ (k - j))"
    using assms by (intro sum_nonneg) simp
  ultimately show ?thesis
    by simp
qed

lemma ewm_state_present:
  fixes f :: real
  assumes "0 \<le> f" and "k \<le> length cs"
  shows "foldl (ewm_step f) (Some c, 1, 1) (map Some (take k cs)) =
     (Some ((\<Sum>j\<le>k. f ^ (k - j) * (c # cs) ! j) / (\<Sum>j\<le>k. f ^ (k - j))),
      (\<Sum>j\<le>k. f ^ (k - j)), Suc k)"
  using assms(2)
proof (induction k)
  case 0
  then show ?case by simp
next
  case (Suc k)
  let ?W = "\<Sum>j\<le>k. f ^ (k - j)"
  let ?S = "\<Sum>j\<le>k. f ^ (k - j) * (c # cs) ! j"
  have k: "k < length cs"
    using Suc.prems by simp
  have W: "0 < ?W"
    by (rule weight_sum_pos [OF assms(1)])
  have W': "(\<Sum>j\<le>Suc k. f ^ (Suc k - j)) = f * ?W + 1"
    using weight_sum_Suc [of f k "\<lambda>_. 1"] by simp
  have S': "(\<Sum>j\<le>Suc k. f ^ (Suc k - j) * (c # cs) ! j) = f * ?S + cs ! k"
    using weight_sum_Suc [of f k "\<lambda>j. (c # cs) ! j"] by simp
  have "foldl (ewm_step f) (Some c, 1, 1) (map Some (take (Suc k) cs)) =
      ewm_step f (Some (?S / ?W), ?W, Suc k) (Some (cs ! k))"
    using Suc.IH k by (simp add: take_Suc_conv_app_nth)
  also have "\<dots> = (Some ((f * ?S + cs ! k) / (f * ?W + 1)), f * ?W + 1, Suc (Suc k))"
    using W by (simp add: Let_def mult.commute)
  finally show ?case
    unfolding W' S' .
qed

lemma ewm_mean_present:
  assumes "0 \<le> com"
  shows "ewm_mean com (map Some C) =
     map (\<lambda>i. Some ((\<Sum>j\<le>i. (1 - 1 / (1 + com)) ^ (i - j) * C ! j)
                   / (\<Sum>j\<le>i. (1 - 1 / (1 + com)) ^ (i - j)))) [0..<length C]"
proof (cases C)
  case Nil
  then show ?thesis by simp
next
  case (Cons c cs)
  let ?f = "1 - 1 / (1 + com)"
  have f: "0 \<le> ?f"
    using assms by (simp add: field_simps)
  show ?thesis
  proof (rule nth_equalityI)
    show "length (ewm_mean com (map Some C)) = length (map (\<lambda>i. Some ((\<Sum>j\<le>i. ?f ^ (i - j) * C ! j)
                   / (\<Sum>j\<le>i. ?f ^ (i - j)))) [0..<length C])"
      by (simp add: length_ewm_mean)
  next
    fix i
    assume "i < length (ewm_mean com (map Some C))"
    then have i: "i < length C"
      by (simp add: length_ewm_mean)
    show "ewm_mean com (map Some C) ! i = map (\<lambda>i. Some ((\<Sum>j\<le>i. ?f ^ (i - j) * C ! j)
                   / (\<Sum>j\<le>i. ?f ^ (i - j)))) [0..<length C] ! i"
    proof (cases i)
      case 0
      then show ?thesis
        using Cons by (simp add: Let_def nth_map_upt del: upt_Suc)
    next
      case (Suc k)
      then have k: "k < length cs"
        using i Cons by simp
      have "ewm_mean com (map Some C) ! i = ewm_loop ?f (Some c, 1, 1) (map Some cs) ! k"
        using Cons Suc by (simp add: Let_def)
      also have "\<dots> = ewm_out (foldl (ewm_step ?f) (Some c, 1, 1) (map Some (take (Suc k) cs)))"
        using k by (simp add: ewm_loop_nth take_map)
      also have "\<dots> = Some ((\<Sum>j\<le>i. ?f ^ (i - j) * C ! j) / (\<Sum>j\<le>i. ?f ^ (i - j)))"
        unfolding ewm_state_present [OF f Suc_leI [OF k]] using Cons Suc
        by (simp del: sum.atMost_Suc)
      finally show ?thesis
        using i by (simp del: sum.atMost_Suc)
    qed
  qed
qed

section \<open>The columns that \<^verbatim>\<open>calculate_indicators\<close> writes\<close>

lemma getitem_column: "column df k = Some c \<Longrightarrow> getitem df k = Inr c"
  by (simp add: getitem_def column_def)

lemma getitem_missing: "column df k = None \<Longrightarrow> getitem df k = Inl (KeyError k)"
  by (simp add: getitem_def column_def)

lemma column_setitem: "column (setitem df k v) k' = (if k' = k then Some v else column df k')"
  by (simp add: column_def setitem_def update_conv')

lemma index_setitem: "index (setitem df k v) = index df"
  by (simp add: setitem_def)

lemma indicators_eq:
  assumes "column df ''Close'' = Some close"
  shows "indicators df =
     Inr (setitem (setitem (setitem df ''SMA_50'' (rolling_mean 50 close))
            ''EMA_21'' (ewm_mean 21 close))
            ''Volatility_50'' (rolling_std 50 (pct_change close)))"
  using assms
  by (simp add: indicators_def daily_returns_def getitem_def column_def setitem_def
      update_conv' Let_def)

lemma indicators_missing:
  assumes "column df ''Close'' = None"
  shows "indicators df = Inl (KeyError ''Close'')"
  using assms by (simp add: indicators_def getitem_missing)

lemma daily_returns_eq:
  assumes "column df ''Close'' = Some close"
  shows "daily_returns df = Inr (pct_change close)"
  by (simp add: daily_returns_def getitem_column [OF assms])

lemma calculate_indicators_eq:
  assumes "column df ''Close'' = Some close"
  shows "snd (calculate_indicators df) =
     Inr (setitem (setitem (setitem df ''SMA_50'' (rolling_mean 50 close))
            ''EMA_21'' (ewm_mean 21 close))
            ''Volatility_50'' (rolling_std 50 (pct_change close)))"
  by (simp add: calculate_indicators_def indicators_eq [OF assms])

lemma enriched_columns:
  assumes "column df ''Close'' = Some close"
  shows "\<exists>df'. snd (calculate_indicators df) = Inr df'
     \<and> index df' = index df
     \<and> column df' ''SMA_50'' = Some (rolling_mean 50 close)
     \<and> column df' ''EMA_21'' = Some (ewm_mean 21 close)
     \<and> column df' ''Volatility_50'' = Some (rolling_std 50 (pct_change close))"
  by (simp add: calculate_indicators_eq [OF assms] column_setitem index_setitem)

section \<open>The indicator columns\<close>

lemma filter_upt_ge: "filter (\<lambda>i. \<not> i < k) [0..<n] = [k..<n]"
proof (induction n)
  case 0
  then show ?case by simp
next
  case (Suc n)
  then show ?case
    by (cases "k \<le> n") auto
qed

lemma count_defined:
  "length (filter (\<lambda>x. x \<noteq> None) (map (\<lambda>i. if i < k then None else Some (g i)) [0..<n])) = n - k"
proof -
  have "filter (\<lambda>x. x \<noteq> None) (map (\<lambda>i. if i < k then None else Some (g i)) [0..<n])
      = map (\<lambda>i. if i < k then None else Some (g i)) (filter (\<lambda>i. \<not> i < k) [0..<n])"
    by (simp add: filter_map comp_def)
  then show ?thesis
    by (simp add: filter_upt_ge)
qed

lemma column_constant_frame: "column (constant_frame n p) ''Close'' = Some (map Some (replicate n p))"
  by (simp add: constant_frame_def close_frame_def column_def)

lemma constant_map_upt:
  assumes "\<And>i. i < n \<Longrightarrow> g i = (if i < k then a else b)"
  shows "map g [0..<n] = replicate (min k n) a @ replicate (n - k) b"
proof (rule nth_equalityI)
  show "length (map g [0..<n]) = length (replicate (min k n) a @ replicate (n - k) b)"
    by auto
next
  fix i
  assume "i < length (map g [0..<n])"
  then show "map g [0..<n] ! i = (replicate (min k n) a @ replicate (n - k) b) ! i"
    using assms by (auto simp: nth_append)
qed

subsection \<open>The simple moving average\<close>

text \<open>
  Claim C3. When the column \<^verbatim>\<open>Close\<close> holds the prices \<open>C\<close>, none missing,
  \<^verbatim>\<open>calculate_indicators\<close> succeeds and the column \<^verbatim>\<open>SMA_50\<close> is undefined at every
  position below 49 and, at every position \<open>i\<close> from 49 on, the arithmetic mean of the 50
  prices \<open>C[i-49], ..., C[i]\<close>; so it is defined at exactly \<open>length C - 49\<close> rows
  (none when the series has fewer than 50 rows).
\<close>

theorem sma_50_trailing_mean:
  assumes "column df ''Close'' = Some (map Some C)"
  shows "\<exists>df' sma. snd (calculate_indicators df) = Inr df'
     \<and> column df' ''SMA_50'' = Some sma
     \<and> sma = map (\<lambda>i. if i < 49 then None else Some ((\<Sum>j = i - 49..i. C ! j) / 50))
               [0..<length C]
     \<and> length (filter (\<lambda>x. x \<noteq> None) sma) = length C - 49"
proof -
  let ?sma = "map (\<lambda>i. if i < 49 then None else Some ((\<Sum>j = i - 49..i. C ! j) / 50))
    [0..<length C]"
  have sma: "rolling_mean 50 (map Some C) = ?sma"
    by (simp add: rolling_mean_present)
  obtain df' where "snd (calculate_indicators df) = Inr df'"
    and "column df' ''SMA_50'' = Some (rolling_mean 50 (map Some C))"
    using enriched_columns [OF assms] by blast
  moreover have "length (filter (\<lambda>x. x \<noteq> None) ?sma) = length C - 49"
    by (rule count_defined)
  ultimately show ?thesis
    unfolding sma by blast
qed

text \<open>The 60 rows of constant price 100: 49 undefined cells, then 11 cells of value 100.\<close>

theorem sma_50_trailing_mean_witness:
  "\<exists>df'. snd (calculate_indicators (constant_frame 60 100)) = Inr df'
     \<and> column df' ''SMA_50'' = Some (replicate 49 None @ replicate 11 (Some 100))"
proof -
  have "map (\<lambda>i. if i < 49 then None
              else Some ((\<Sum>j = i - 49..i. replicate 60 (100::real) ! j) / 50)) [0..<60]
      = replicate (min 49 60) None @ replicate (60 - 49) (Some 100)"
    by (rule constant_map_upt) simp
  then show ?thesis
    using sma_50_trailing_mean [OF column_constant_frame, of 60 100] by auto
qed

lemma length_rolling_mean: "length (rolling_mean w xs) = length xs"
  by (simp add: rolling_mean_def)

lemma window_prefix:
  assumes "take (Suc i) xs = take (Suc i) ys"
  shows "window w i xs = window w i ys"
  using assms by (simp add: window_def)

lemma rolling_mean_nth_prefix:
  assumes "i < length xs" and "i < length ys" and "take (Suc i) xs = take (Suc i) ys"
  shows "rolling_mean w xs ! i = rolling_mean w ys ! i"
  using assms(1,2) by (simp add: rolling_mean_def window_prefix [OF assms(3)])

text \<open>
  Claim C8. No look-ahead: when the \<^verbatim>\<open>Close\<close> columns of two tables agree at every
  position up to \<open>i\<close>, their \<^verbatim>\<open>SMA_50\<close> columns hold the same cell at \<open>i\<close> (both
  undefined, or the same value), whatever the later prices are and whether or not
  prices are missing.
\<close>

theorem sma_50_no_look_ahead:
  assumes "column df1 ''Close'' = Some c1" and "column df2 ''Close'' = Some c2"
    and "i < length c1" and "i < length c2"
    and "take (Suc i) c1 = take (Suc i) c2"
  shows "\<exists>d1 d2 s1 s2. snd (calculate_indicators df1) = Inr d1
     \<and> snd (calculate_indicators df2) = Inr d2
     \<and> column d1 ''SMA_50'' = Some s1 \<and> column d2 ''SMA_50'' = Some s2
     \<and> s1 ! i = s2 ! i"
proof -
  obtain d1 where "snd (calculate_indicators df1) = Inr d1"
    and "column d1 ''SMA_50'' = Some (rolling_mean 50 c1)"
    using enriched_columns [OF assms(1)] by blast
  moreover obtain d2 where "snd (calculate_indicators df2) = Inr d2"
    and "column d2 ''SMA_50'' = Some (rolling_mean 50 c2)"
    using enriched_columns [OF assms(2)] by blast
  moreover have "rolling_mean 50 c1 ! i = rolling_mean 50 c2 ! i"
    using assms(3-5) by (rule rolling_mean_nth_prefix)
  ultimately show ?thesis
    by blast
qed

text \<open>Two series of 60 rows that differ in the last price only agree on the average at
  position 58.\<close>

theorem sma_50_no_look_ahead_witness:
  "\<exists>d1 d2 s1 s2.
     snd (calculate_indicators (constant_frame 60 100)) = Inr d1
     \<and> snd (calculate_indicators (close_frame (replicate 59 (Some 100) @ [Some 7]))) = Inr d2
     \<and> column d1 ''SMA_50'' = Some s1 \<and> column d2 ''SMA_50'' = Some s2
     \<and> s1 ! 58 = s2 ! 58"
  by (rule sma_50_no_look_ahead [where ?c1.0 = "replicate 60 (Some 100)"
        and ?c2.0 = "replicate 59 (Some 100) @ [Some 7]"])
    (simp_all add: column_def constant_frame_def close_frame_def)

subsection \<open>The single-period returns\<close>

lemma fdiv_minus_one_cases:
  assumes "b \<noteq> 0"
  shows "fdiv_minus_one (Some a) (Some b) \<noteq> RNaN"
    and "fdiv_minus_one (Some a) (Some b) = RInf \<longleftrightarrow> overflows (a / b)"
    and "\<not> overflows (a / b) \<Longrightarrow> fdiv_minus_one (Some a) (Some b) = RFin (a / b - 1)"
  using assms by simp_all

text \<open>
  Claim C10, as amended. On a table whose closing prices \<open>C\<close> are positive, line 45 of
  \<^verbatim>\<open>calculate_indicators\<close> raises nothing and never divides by zero: at every position
  \<open>i \<ge> 1\<close> the divisor \<open>C[i-1]\<close> is not zero, the return is the floating-point quotient
  of \<open>C[i]\<close> and \<open>C[i-1]\<close> less one, and it is not NaN. It is a finite number unless the
  quotient \<open>C[i] / C[i-1]\<close> leaves the range of binary64, and infinite exactly then. The
  column \<^verbatim>\<open>Volatility_50\<close> is the rolling deviation of these returns.
\<close>

theorem returns_defined_for_positive_prices:
  assumes "column df ''Close'' = Some (map Some C)" and "\<forall>x\<in>set C. 0 < x"
    and "1 \<le> i" and "i < length C"
  shows "\<exists>rs df'. daily_returns df = Inr rs
     \<and> snd (calculate_indicators df) = Inr df'
     \<and> column df' ''Volatility_50'' = Some (rolling_std 50 rs)
     \<and> C ! (i - 1) \<noteq> 0
     \<and> rs ! i = fdiv_minus_one (Some (C ! i)) (Some (C ! (i - 1)))
     \<and> rs ! i \<noteq> RNaN
     \<and> (rs ! i = RInf \<longleftrightarrow> overflows (C ! i / C ! (i - 1)))
     \<and> (\<not> overflows (C ! i / C ! (i - 1)) \<longrightarrow> (\<exists>r. rs ! i = RFin r))"
proof -
  let ?rs = "pct_change (map Some C)"
  have rs: "daily_returns df = Inr ?rs"
    by (rule daily_returns_eq [OF assms(1)])
  obtain df' where df': "snd (calculate_indicators df) = Inr df'"
    "column df' ''Volatility_50'' = Some (rolling_std 50 ?rs)"
    using enriched_columns [OF assms(1)] by blast
  have "0 < C ! (i - 1)"
    using assms(2,4) by (simp add: less_imp_diff_less)
  then have nz: "C ! (i - 1) \<noteq> 0"
    by simp
  have val: "?rs ! i = fdiv_minus_one (Some (C ! i)) (Some (C ! (i - 1)))"
    using assms(3,4) by (simp add: pct_change_present_nth)
  have "?rs ! i \<noteq> RNaN"
    and "?rs ! i = RInf \<longleftrightarrow> overflows (C ! i / C ! (i - 1))"
    and "\<not> overflows (C ! i / C ! (i - 1)) \<longrightarrow> (\<exists>r. ?rs ! i = RFin r)"
    unfolding val using fdiv_minus_one_cases [OF nz, of "C ! i"] by simp_all
  with rs df' nz val show ?thesis
    by (intro exI [of _ ?rs] exI [of _ df'] conjI)
qed

text \<open>Three prices that double: both returns are 1, in the model and in binary64.\<close>

theorem returns_defined_for_positive_prices_witness:
  "\<exists>rs df'. daily_returns (close_frame [Some 1, Some 2, Some 4]) = Inr rs
     \<and> snd (calculate_indicators (close_frame [Some 1, Some 2, Some 4])) = Inr df'
     \<and> column df' ''Volatility_50'' = Some (rolling_std 50 rs)
     \<and> rs ! 1 = RFin 1 \<and> rs ! 2 = RFin 1"
proof -
  let ?df = "close_frame [Some 1, Some 2, Some 4]"
  have close: "column ?df ''Close'' = Some (map Some [1, 2, 4])"
    by (simp add: close_frame_def column_def)
  have pos: "\<forall>x\<in>set [1, 2, 4 :: real]. 0 < x"
    by simp
  have small: "\<not> overflows (2::real)"
    by (rule not_overflows_small) simp
  from returns_defined_for_positive_prices [OF close pos, of 1]
  obtain rs df' where run: "daily_returns ?df = Inr rs"
    "snd (calculate_indicators ?df) = Inr df'"
    "column df' ''Volatility_50'' = Some (rolling_std 50 rs)"
    by auto
  have "pct_change [Some 1, Some 2, Some 4] = [RNaN, RFin 1, RFin 1]"
    using small by (simp add: pct_change_def ffill_def shift_def)
  moreover have "rs = pct_change [Some 1, Some 2, Some 4]"
    using run(1) daily_returns_eq [OF close] by simp
  ultimately have "rs ! 1 = RFin 1" and "rs ! 2 = RFin 1"
    by simp_all
  with run show ?thesis
    by (intro exI [of _ rs] exI [of _ df'] conjI)
qed

text \<open>
  Claim C10 as it was stated has every return of positive prices finite. The prices
  \<open>1e-300\<close> and \<open>1e300\<close> are positive, and their return is infinite.
\<close>

theorem returns_overflow_counterexample:
  "0 < (1 / 10 ^ 300 :: real) \<and> 0 < (10 ^ 300 :: real)
   \<and> column (jump_frame 1) ''Close'' = Some [Some (1 / 10 ^ 300), Some (10 ^ 300)]
   \<and> (case daily_returns (jump_frame 1) of Inl e \<Rightarrow> [] | Inr rs \<Rightarrow> rs) = [RNaN, RInf]"
proof -
  have close: "column (jump_frame 1) ''Close'' = Some (map Some [1 / 10 ^ 300, 10 ^ 300])"
    by (simp add: jump_frame_def close_frame_def column_def del: power_numeral)
  have "pct_change (map Some [1 / 10 ^ 300, 10 ^ 300 :: real]) = [RNaN, RInf]"
    using jump_overflows
    by (simp add: pct_change_def ffill_def shift_def del: power_numeral)
  then show ?thesis
    using close unfolding daily_returns_eq [OF close] by (simp del: power_numeral)
qed

subsection \<open>The volatility\<close>

text \<open>
  Claim C1, as amended. When the column \<^verbatim>\<open>Close\<close> holds the positive prices \<open>C\<close> and
  their returns stay in range (no quotient of successive prices exceeds \<open>2 ^ 500\<close>), the
  column \<^verbatim>\<open>Volatility_50\<close> is undefined at every position below 50 and, at every position
  \<open>i\<close> from 50 on, the sample standard deviation (divisor 49) of the 50 returns
  \<open>r[j] = C[j] / C[j-1] - 1\<close> for \<open>j\<close> from \<open>i - 49\<close> to \<open>i\<close>; so it is defined at exactly
  \<open>length C - 50\<close> rows. Every \<open>j\<close> of such a window is at least 1: the undefined return
  at position 0 enters no defined value.
\<close>

theorem volatility_50_sample_std:
  assumes "column df ''Close'' = Some (map Some C)" and "\<forall>x\<in>set C. 0 < x"
    and "returns_in_range C"
  shows "\<exists>df' vol. snd (calculate_indicators df) = Inr df'
     \<and> column df' ''Volatility_50'' = Some vol
     \<and> vol = map (\<lambda>i. if i < 50 then None
                else Some (sqrt ((\<Sum>j = i - 49..i. (C ! j / C ! (j - 1) - 1
                    - (\<Sum>k = i - 49..i. C ! k / C ! (k - 1) - 1) / 50)\<^sup>2) / 49)))
               [0..<length C]
     \<and> length (filter (\<lambda>x. x \<noteq> None) vol) = length C - 50"
proof -
  let ?vol = "map (\<lambda>i. if i < 50 then None
                else Some (sqrt ((\<Sum>j = i - 49..i. (C ! j / C ! (j - 1) - 1
                    - (\<Sum>k = i - 49..i. C ! k / C ! (k - 1) - 1) / 50)\<^sup>2) / 49)))
               [0..<length C]"
  have nz: "\<forall>x\<in>set C. x \<noteq> 0"
    using assms(2) by auto
  have "rolling_std 50 (pct_change (map Some C)) =
     map (\<lambda>i. if i < 50 then None
              else Some (sample_std (map (\<lambda>j. C ! j / C ! (j - 1) - 1) [i - 49..<Suc i])))
       [0..<length C]"
    by (rule rolling_std_returns [OF nz assms(3)])
  also have "\<dots> = ?vol"
    by (rule map_cong) (simp_all add: sample_std_window del: upt_Suc)
  finally have vol: "rolling_std 50 (pct_change (map Some C)) = ?vol" .
  obtain df' where "snd (calculate_indicators df) = Inr df'"
    and "column df' ''Volatility_50'' = Some (rolling_std 50 (pct_change (map Some C)))"
    using enriched_columns [OF assms(1)] by blast
  moreover have "length (filter (\<lambda>x. x \<noteq> None) ?vol) = length C - 50"
    by (rule count_defined)
  ultimately show ?thesis
    unfolding vol by blast
qed

text \<open>The 60 rows of constant price 100: all returns are 0, so 50 undefined cells are
  followed by 10 cells of value 0.\<close>

theorem volatility_50_sample_std_witness:
  "\<exists>df'. snd (calculate_indicators (constant_frame 60 100)) = Inr df'
     \<and> column df' ''Volatility_50'' = Some (replicate 50 None @ replicate 10 (Some 0))"
proof -
  let ?C = "replicate 60 (100::real)"
  have r: "?C ! j / ?C ! (j - 1) - 1 = 0" if "j \<le> i" and "i < 60" for i j
  proof -
    have "j < 60" and "j - 1 < 60"
      using that by simp_all
    then show ?thesis
      by (simp only: nth_replicate)
  qed
  have s: "(\<Sum>j = i - 49..i. ?C ! j / ?C ! (j - 1) - 1) = 0" if "i < 60" for i
  proof (rule sum.neutral, rule ballI)
    fix j
    assume "j \<in> {i - 49..i}"
    then have "j \<le> i"
      by simp
    then show "?C ! j / ?C ! (j - 1) - 1 = 0"
      using that by (rule r)
  qed
  have "(\<Sum>j = i - 49..i. (?C ! j / ?C ! (j - 1) - 1
      - (\<Sum>k = i - 49..i. ?C ! k / ?C ! (k - 1) - 1) / 50)\<^sup>2) = 0" if "i < 60" for i
  proof (rule sum.neutral, rule ballI)
    fix j
    assume "j \<in> {i - 49..i}"
    then have "j \<le> i"
      by simp
    then have "?C ! j / ?C ! (j - 1) - 1 = 0"
      using that by (rule r)
    then show "(?C ! j / ?C ! (j - 1) - 1
        - (\<Sum>k = i - 49..i. ?C ! k / ?C ! (k - 1) - 1) / 50)\<^sup>2 = 0"
      unfolding s [OF that] by simp
  qed
  then have "map (\<lambda>i. if i < 50 then None
                else Some (sqrt ((\<Sum>j = i - 49..i. (?C ! j / ?C ! (j - 1) - 1
                    - (\<Sum>k = i - 49..i. ?C ! k / ?C ! (k - 1) - 1) / 50)\<^sup>2) / 49)))
               [0..<60]
      = replicate (min 50 60) None @ replicate (60 - 50) (Some 0)"
    by (intro constant_map_upt) simp
  then show ?thesis
    using volatility_50_sample_std [OF column_constant_frame, of 60 100]
      constant_in_range [of 100 60] by auto
qed

text \<open>The returns of the series \<open>1e-300, 1e300, 1e300, ...\<close>: the second is infinite, the
  later ones are 0.\<close>

lemma jump_returns:
  "pct_change (Some (1 / 10 ^ 300) # replicate n (Some (10 ^ 300)))
     = map (\<lambda>j. if j = 0 then RNaN else if j = 1 then RInf else RFin 0) [0..<Suc n]"
proof (rule nth_equalityI)
  show "length (pct_change (Some (1 / 10 ^ 300) # replicate n (Some (10 ^ 300))))
      = length (map (\<lambda>j. if j = 0 then RNaN else if j = 1 then RInf else RFin 0) [0..<Suc n])"
    by (simp add: length_pct_change)
next
  fix i
  let ?C = "1 / 10 ^ 300 # replicate n (10 ^ 300 :: real)"
  assume "i < length (pct_change (Some (1 / 10 ^ 300) # replicate n (Some (10 ^ 300))))"
  then have i: "i < Suc n"
    by (simp add: length_pct_change)
  have C: "Some (1 / 10 ^ 300) # replicate n (Some (10 ^ 300)) = map Some ?C"
    by (simp del: power_numeral)
  have nth: "pct_change (map Some ?C) ! i
      = (if i = 0 then RNaN else fdiv_minus_one (Some (?C ! i)) (Some (?C ! (i - 1))))"
    by (rule pct_change_present_nth) (use i in simp)
  have up: "fdiv_minus_one (Some (10 ^ 300)) (Some (1 / 10 ^ 300)) = RInf"
    using jump_overflows by (simp del: power_numeral)
  have flat: "fdiv_minus_one (Some (10 ^ 300)) (Some (10 ^ 300)) = RFin 0"
    using not_overflows_small [of 1] by (simp del: power_numeral)
  have "pct_change (map Some ?C) ! i = (if i = 0 then RNaN else if i = 1 then RInf else RFin 0)"
  proof (cases i)
    case 0
    then show ?thesis
      unfolding nth by simp
  next
    case (Suc k)
    show ?thesis
    proof (cases k)
      case 0
      then have "?C ! i = 10 ^ 300" and "?C ! (i - 1) = 1 / 10 ^ 300"
        using Suc i by (simp_all del: power_numeral)
      then show ?thesis
        unfolding nth using Suc 0 up by (simp del: power_numeral)
    next
      case (Suc m)
      then have "?C ! i = 10 ^ 300" and "?C ! (i - 1) = 10 ^ 300"
        using \<open>i = Suc k\<close> i by (simp_all del: power_numeral)
      then show ?thesis
        unfolding nth using Suc \<open>i = Suc k\<close> flat by (simp del: power_numeral)
    qed
  qed
  then show "pct_change (Some (1 / 10 ^ 300) # replicate n (Some (10 ^ 300))) ! i
      = map (\<lambda>j. if j = 0 then RNaN else if j = 1 then RInf else RFin 0) [0..<Suc n] ! i"
    unfolding C using i by (simp add: nth_map_upt del: upt_Suc power_numeral)
qed

lemma jump_volatility:
  assumes "i < Suc n"
  shows "rolling_std 50 (map (\<lambda>j. if j = 0 then RNaN else if j = 1 then RInf else RFin 0)
           [0..<Suc n]) ! i
     = (if i < 51 then None else Some 0)"
proof -
  let ?g = "\<lambda>j::nat. if j = 0 then RNaN else if j = 1 then RInf else RFin 0"
  let ?obs = "filter (\<lambda>r. r \<noteq> RNaN) (window 50 i (map ?g [0..<Suc n]))"
  have cell: "rolling_std 50 (map ?g [0..<Suc n]) ! i
      = (if 50 \<le> length ?obs \<and> 1 < length ?obs
         then map_option sample_std (finite_values ?obs) else None)"
    using assms by (simp add: rolling_std_def Let_def del: upt_Suc)
  have win: "window 50 i (map ?g [0..<Suc n]) = map ?g [Suc i - 50..<Suc i]"
    using assms by (rule window_map_upt)
  consider "i < 50" | "i = 50" | "50 < i"
    by linarith
  then show ?thesis
  proof cases
    case 1
    then have "[Suc i - 50..<Suc i] = 0 # [1..<Suc i]"
      by (simp add: upt_conv_Cons del: upt_Suc)
    then have "?obs = filter (\<lambda>r. r \<noteq> RNaN) (map ?g [1..<Suc i])"
      unfolding win by simp
    then have "length ?obs \<le> length (map ?g [1..<Suc i])"
      by (simp only: length_filter_le)
    then have "length ?obs \<le> i"
      by (simp del: upt_Suc)
    then have "\<not> (50 \<le> length ?obs \<and> 1 < length ?obs)"
      using 1 by linarith
    then show ?thesis
      unfolding cell using 1 by (simp only: if_False) simp
  next
    case 2
    have "[Suc i - 50..<Suc i] = 1 # [2..<51]"
      using 2 by (simp add: upt_conv_Cons del: upt_Suc)
    moreover have "map ?g [2..<51] = map (\<lambda>j. RFin 0) [2..<51]"
      by (rule map_cong) auto
    ultimately have "?obs = RInf # map (\<lambda>j. RFin 0) [2..<51]"
      unfolding win by (simp del: upt_Suc upt_rec_numeral)
    then show ?thesis
      unfolding cell using 2 by (simp del: upt_Suc upt_rec_numeral)
  next
    case 3
    have "map ?g [Suc i - 50..<Suc i] = map (\<lambda>j. RFin 0) [Suc i - 50..<Suc i]"
      using 3 by (intro map_cong) auto
    then have "?obs = map (\<lambda>j. RFin 0) [Suc i - 50..<Suc i]"
      unfolding win by (simp del: upt_Suc)
    moreover have "length [Suc i - 50..<Suc i] = 50"
      using 3 by simp
    ultimately show ?thesis
      unfolding cell using 3
      by (simp add: finite_values_replicate map_replicate_const sample_std_zeros del: upt_Suc)
  qed
qed

text \<open>
  Claim C1 as it was stated asks only that the prices be positive. In the series of 60
  positive prices \<open>1e-300, 1e300, ..., 1e300\<close> the return at position 1 is infinite, and
  the volatility is undefined at position 50 as well: it is defined at 9 positions, from
  51 on.
\<close>

theorem volatility_50_overflow_counterexample:
  "0 < (1 / 10 ^ 300 :: real) \<and> 0 < (10 ^ 300 :: real)
   \<and> column (jump_frame 59) ''Close''
       = Some (Some (1 / 10 ^ 300) # replicate 59 (Some (10 ^ 300)))
   \<and> (case snd (calculate_indicators (jump_frame 59))
       of Inl e \<Rightarrow> None | Inr df' \<Rightarrow> column df' ''Volatility_50'')
       = Some (replicate 51 None @ replicate 9 (Some 0))"
proof -
  let ?close = "Some (1 / 10 ^ 300) # replicate 59 (Some (10 ^ 300 :: real))"
  let ?g = "\<lambda>j::nat. if j = 0 then RNaN else if j = 1 then RInf else RFin 0"
  have close: "column (jump_frame 59) ''Close'' = Some ?close"
    by (simp add: jump_frame_def close_frame_def column_def del: power_numeral)
  have "rolling_std 50 (pct_change ?close)
      = map (\<lambda>i. rolling_std 50 (map ?g [0..<Suc 59]) ! i) [0..<60]"
    unfolding jump_returns by (rule nth_equalityI) (simp_all add: length_rolling_std)
  also have "\<dots> = replicate (min 51 60) None @ replicate (60 - 51) (Some 0)"
    by (rule constant_map_upt, rule jump_volatility) simp
  finally have "rolling_std 50 (pct_change ?close) = replicate 51 None @ replicate 9 (Some 0)"
    by simp
  then show ?thesis
    using close unfolding calculate_indicators_eq [OF close]
    by (simp add: column_setitem del: power_numeral)
qed

subsection \<open>The exponential moving average\<close>

text \<open>
  Claim C2. When the column \<^verbatim>\<open>Close\<close> holds the prices \<open>C\<close>, none missing, the column
  \<^verbatim>\<open>EMA_21\<close> is defined at every position, and its cell at \<open>i\<close> is the weighted average
  of \<open>C[0], ..., C[i]\<close> with the weights \<open>(1 - alpha) ^ (i - j)\<close>, \<open>alpha = 1 / 22\<close>, divided
  by the sum of these weights up to \<open>i\<close> (the adjusted convention); its first cell is
  \<open>C[0]\<close>.
\<close>

theorem ema_21_adjusted_average:
  assumes "column df ''Close'' = Some (map Some C)"
  shows "\<exists>df' ema. snd (calculate_indicators df) = Inr df'
     \<and> column df' ''EMA_21'' = Some ema
     \<and> ema = map (\<lambda>i. Some ((\<Sum>j\<le>i. (1 - 1 / 22) ^ (i - j) * C ! j)
                           / (\<Sum>j\<le>i. (1 - 1 / 22) ^ (i - j)))) [0..<length C]
     \<and> take 1 ema = map Some (take 1 C)"
proof -
  let ?ema = "map (\<lambda>i. Some ((\<Sum>j\<le>i. (1 - 1 / 22) ^ (i - j) * C ! j)
                           / (\<Sum>j\<le>i. (1 - 1 / 22) ^ (i - j)))) [0..<length C]"
  have f: "1 - 1 / (1 + 21) = (1 - 1 / 22 :: real)"
    by simp
  have ema: "ewm_mean 21 (map Some C) = ?ema"
    using ewm_mean_present [of 21 C] unfolding f by simp
  have first: "take 1 ?ema = map Some (take 1 C)"
    by (cases C) (simp_all add: upt_conv_Cons del: upt_Suc)
  obtain df' where "snd (calculate_indicators df) = Inr df'"
    and "column df' ''EMA_21'' = Some (ewm_mean 21 (map Some C))"
    using enriched_columns [OF assms(1)] by blast
  then show ?thesis
    unfolding ema using first by blast
qed

text \<open>The 60 rows of constant price 100: every average is 100.\<close>

theorem ema_21_adjusted_average_witness:
  "\<exists>df'. snd (calculate_indicators (constant_frame 60 100)) = Inr df'
     \<and> column df' ''EMA_21'' = Some (replicate 60 (Some 100))"
proof -
  let ?C = "replicate 60 (100::real)"
  let ?f = "1 - 1 / 22 :: real"
  have "(\<Sum>j\<le>i. ?f ^ (i - j) * ?C ! j) / (\<Sum>j\<le>i. ?f ^ (i - j)) = 100" if "i < 60" for i
  proof -
    have "(\<Sum>j\<le>i. ?f ^ (i - j) * ?C ! j) = (\<Sum>j\<le>i. ?f ^ (i - j) * 100)"
      using that by (intro sum.cong) simp_all
    also have "\<dots> = (\<Sum>j\<le>i. ?f ^ (i - j)) * 100"
      by (simp only: sum_distrib_right)
    finally show ?thesis
      using weight_sum_pos [of ?f i] by simp
  qed
  then have "map (\<lambda>i. Some ((\<Sum>j\<le>i. ?f ^ (i - j) * ?C ! j) / (\<Sum>j\<le>i. ?f ^ (i - j)))) [0..<60]
      = replicate (min 0 60) None @ replicate (60 - 0) (Some 100)"
    by (intro constant_map_upt) simp
  then show ?thesis
    using ema_21_adjusted_average [OF column_constant_frame, of 60 100] by auto
qed

section \<open>Tables: setting columns, selecting rows\<close>

lemma column_length:
  assumes "wf_frame df" and "column df k = Some c"
  shows "length c = nrows df"
proof -
  have "(k, c) \<in> set (columns df)"
    using assms(2) by (simp add: column_def map_of_SomeD)
  then show ?thesis
    using assms(1) by (auto simp: wf_frame_def nrows_def list_all_iff)
qed

lemma column_member:
  "column df k = Some c \<Longrightarrow> (k, c) \<in> set (columns df)"
  by (simp add: column_def map_of_SomeD)

lemma list_all_update:
  "list_all P al \<Longrightarrow> P (k, v) \<Longrightarrow> list_all P (AList.update k v al)"
  by (induction al) auto

lemma wf_frame_setitem:
  assumes "wf_frame df" and "length v = nrows df"
  shows "wf_frame (setitem df k v)"
  using assms
  by (simp add: wf_frame_def setitem_def nrows_def list_all_update distinct_update)

lemma nrows_setitem: "nrows (setitem df k v) = nrows df"
  by (simp add: nrows_def setitem_def)

lemma columns_setitem: "columns (setitem df k v) = AList.update k v (columns df)"
  by (simp add: setitem_def)

lemma wf_frame_enriched:
  assumes "wf_frame df" and "column df ''Close'' = Some close"
  shows "wf_frame (setitem (setitem (setitem df ''SMA_50'' (rolling_mean 50 close))
            ''EMA_21'' (ewm_mean 21 close))
            ''Volatility_50'' (rolling_std 50 (pct_change close)))"
proof -
  have n: "length close = nrows df"
    using assms by (rule column_length)
  show ?thesis
    by (intro wf_frame_setitem assms(1))
      (simp_all add: nrows_setitem n length_rolling_mean length_ewm_mean length_rolling_std
        length_pct_change)
qed

lemma select_snoc:
  assumes "length keep = length xs"
  shows "select (keep @ [b]) (xs @ [x]) = select keep xs @ (if b then [x] else [])"
  using assms by (simp add: select_def)

lemma select_from:
  "select (map (\<lambda>i. k \<le> i) [0..<length xs]) xs = drop k xs"
proof (induction xs rule: rev_induct)
  case Nil
  then show ?case by (simp add: select_def)
next
  case (snoc x xs)
  have "select (map (\<lambda>i. k \<le> i) [0..<length (xs @ [x])]) (xs @ [x])
      = select (map (\<lambda>i. k \<le> i) [0..<length xs] @ [k \<le> length xs]) (xs @ [x])"
    by simp
  also have "\<dots> = select (map (\<lambda>i. k \<le> i) [0..<length xs]) xs
      @ (if k \<le> length xs then [x] else [])"
    by (rule select_snoc) simp
  finally show ?case
    using snoc.IH by simp
qed

lemma select_none:
  assumes "\<forall>b\<in>set keep. \<not> b"
  shows "select keep xs = []"
proof -
  have "filter snd (zip xs keep) = []"
    using assms by (auto simp: filter_empty_conv dest: set_zip_rightD)
  then show ?thesis
    by (simp add: select_def)
qed


lemma complete_rows_nth:
  "i < nrows df \<Longrightarrow>
     complete_rows df ! i = list_all (\<lambda>c. snd c ! i \<noteq> None) (columns df)"
  by (simp add: complete_rows_def nrows_def)

lemma length_complete_rows: "length (complete_rows df) = nrows df"
  by (simp add: complete_rows_def nrows_def)

lemma incomplete_row:
  assumes "i < nrows df" and "column df k = Some c" and "c ! i = None"
  shows "\<not> complete_rows df ! i"
proof -
  have "(k, c) \<in> set (columns df)" and "snd (k, c) ! i = None"
    using assms(2,3) by (simp_all add: column_member)
  then have "\<exists>p\<in>set (columns df). snd p ! i = None"
    by (rule bexI [rotated])
  then show ?thesis
    using assms(1) by (simp add: complete_rows_nth list_all_iff)
qed

lemma nrows_dropna: "nrows (dropna df) = length (filter (\<lambda>b. b) (complete_rows df))"
proof -
  have "length (select keep xs) = length (filter (\<lambda>b. b) keep)" if "length keep = length xs"
    for keep and xs :: "int list"
    using that
  proof (induction keep arbitrary: xs)
    case Nil
    then show ?case by (simp add: select_def)
  next
    case (Cons b keep)
    then obtain y ys where "xs = y # ys"
      by (cases xs) auto
    then show ?case
      using Cons by (simp add: select_def)
  qed
  then show ?thesis
    by (simp add: dropna_def nrows_def Let_def length_complete_rows [unfolded nrows_def])
qed

section \<open>The report\<close>

subsection \<open>Series shorter than the windows\<close>

lemma rolling_std_warmup:
  assumes "i < 50" and "i < length close"
  shows "rolling_std 50 (pct_change close) ! i = None"
proof -
  obtain x xs where close: "close = x # xs"
    using assms(2) by (cases close) auto
  obtain rs where rs: "pct_change close = RNaN # rs"
    using pct_change_Cons [of x xs] close by simp
  have "window 50 i (pct_change close) = RNaN # take i rs"
    using assms(1) by (simp add: window_def rs)
  then have "length (filter (\<lambda>r. r \<noteq> RNaN) (window 50 i (pct_change close))) \<le> i"
    using length_filter_le [of "\<lambda>r. r \<noteq> RNaN" "take i rs"] by simp
  then have "\<not> 50 \<le> length (filter (\<lambda>r. r \<noteq> RNaN) (window 50 i (pct_change close)))"
    using assms(1) by simp
  then show ?thesis
    using assms(2) by (simp add: rolling_std_def length_pct_change Let_def)
qed

lemma dropna_none:
  assumes "\<forall>b\<in>set (complete_rows df). \<not> b"
  shows "dropna df = \<lparr>index = [], columns = map (\<lambda>c. (fst c, [])) (columns df)\<rparr>"
  by (simp add: dropna_def Let_def select_none [OF assms])

lemma tail_no_rows:
  "tail k \<lparr>index = [], columns = map (\<lambda>c. (fst c, [])) cs\<rparr>
     = \<lparr>index = [], columns = map (\<lambda>c. (fst c, [])) cs\<rparr>"
  by (simp add: tail_def last_rows_def comp_def)

lemma warmup_rows_incomplete:
  assumes "wf_frame df" and "column df ''Close'' = Some close"
    and "snd (calculate_indicators df) = Inr df'"
    and "i < 50" and "i < nrows df"
  shows "\<not> complete_rows df' ! i"
proof -
  have n: "length close = nrows df"
    using assms(1,2) by (rule column_length)
  obtain d where d: "snd (calculate_indicators df) = Inr d" "index d = index df"
    "column d ''Volatility_50'' = Some (rolling_std 50 (pct_change close))"
    using enriched_columns [OF assms(2)] by blast
  then have "d = df'"
    using assms(3) by simp
  moreover have "rolling_std 50 (pct_change close) ! i = None"
    using assms(4,5) n by (simp add: rolling_std_warmup)
  ultimately show ?thesis
    using d assms(5) by (intro incomplete_row [of i df' "''Volatility_50''"]) (simp_all add: nrows_def)
qed

text \<open>
  Claim C7. For a table of at most 50 rows with a column \<^verbatim>\<open>Close\<close>, the table left by
  \<^verbatim>\<open>dropna\<close> has no row, and \<^verbatim>\<open>analyze_performance\<close> (a total function: nothing in
  it raises) prints its two lines and a table that has the column names and no row.
\<close>

theorem short_series_empty_report:
  assumes "wf_frame df" and "column df ''Close'' = Some close" and "nrows df \<le> 50"
  shows "\<exists>df'. snd (calculate_indicators df) = Inr df'
     \<and> nrows (dropna df') = 0
     \<and> analyze_performance df' =
         [Text (CHR 0x0A # ''--- Analysis Complete ---''),
          Text ''Displaying the last 5 days of data with indicators:'',
          Table \<lparr>index = [], columns = map (\<lambda>c. (fst c, [])) (columns df')\<rparr>]"
proof -
  obtain df' where df': "snd (calculate_indicators df) = Inr df'" "index df' = index df"
    using enriched_columns [OF assms(2)] by blast
  have "\<not> complete_rows df' ! i" if "i < nrows df" for i
    using assms(1,2) df'(1) _ that by (rule warmup_rows_incomplete) (use that assms(3) in simp)
  then have "\<forall>b\<in>set (complete_rows df'). \<not> b"
    using df'(2) by (auto simp: in_set_conv_nth length_complete_rows nrows_def)
  then have "dropna df' = \<lparr>index = [], columns = map (\<lambda>c. (fst c, [])) (columns df')\<rparr>"
    by (rule dropna_none)
  then show ?thesis
    using df'(1) by (simp add: analyze_performance_def tail_no_rows nrows_def)
qed

text \<open>The series of 10 rows.\<close>

theorem short_series_empty_report_witness:
  "\<exists>df'. snd (calculate_indicators (constant_frame 10 100)) = Inr df'
     \<and> nrows (dropna df') = 0
     \<and> analyze_performance df' =
         [Text (CHR 0x0A # ''--- Analysis Complete ---''),
          Text ''Displaying the last 5 days of data with indicators:'',
          Table \<lparr>index = [], columns = [(''Close'', []), (''SMA_50'', []), (''EMA_21'', []),
            (''Volatility_50'', [])]\<rparr>]"
proof -
  have "wf_frame (constant_frame 10 100)" and "nrows (constant_frame 10 100) \<le> 50"
    by (simp_all add: wf_frame_def constant_frame_def close_frame_def nrows_def)
  from short_series_empty_report [OF this(1) column_constant_frame this(2)]
  obtain df' where df': "snd (calculate_indicators (constant_frame 10 100)) = Inr df'"
    "nrows (dropna df') = 0"
    "analyze_performance df' =
         [Text (CHR 0x0A # ''--- Analysis Complete ---''),
          Text ''Displaying the last 5 days of data with indicators:'',
          Table \<lparr>index = [], columns = map (\<lambda>c. (fst c, [])) (columns df')\<rparr>]"
    by blast
  have "map (\<lambda>c. (fst c, [])) (columns df') =
      [(''Close'', []), (''SMA_50'', []), (''EMA_21'', []), (''Volatility_50'', [])]"
    using df'(1) unfolding calculate_indicators_eq [OF column_constant_frame]
    by (auto simp: columns_setitem constant_frame_def close_frame_def)
  then show ?thesis
    using df' by simp
qed

subsection \<open>The rows that are kept\<close>

lemma dropna_from:
  assumes "wf_frame d" and "complete_rows d = map (\<lambda>i. k \<le> i) [0..<nrows d]"
  shows "dropna d = \<lparr>index = drop k (index d),
                     columns = map (\<lambda>c. (fst c, drop k (snd c))) (columns d)\<rparr>"
proof -
  have "select (complete_rows d) (index d) = drop k (index d)"
    unfolding assms(2) nrows_def by (rule select_from)
  moreover have "map (\<lambda>c. (fst c, select (complete_rows d) (snd c))) (columns d)
      = map (\<lambda>c. (fst c, drop k (snd c))) (columns d)"
  proof (rule map_cong [OF refl])
    fix c
    assume "c \<in> set (columns d)"
    then have "length (snd c) = nrows d"
      using assms(1) by (simp add: wf_frame_def list_all_iff nrows_def)
    then show "(fst c, select (complete_rows d) (snd c)) = (fst c, drop k (snd c))"
      unfolding assms(2) using select_from [of k "snd c"] by simp
  qed
  ultimately show ?thesis
    by (simp add: dropna_def Let_def)
qed

lemma last_rows_drop:
  "last_rows m (drop k xs) = drop (max k (length xs - m)) xs"
proof (cases "k + m \<le> length xs")
  case True
  then have "length xs - k - m + k = length xs - m" and "max k (length xs - m) = length xs - m"
    by simp_all
  then show ?thesis
    by (simp add: last_rows_def)
next
  case False
  then have "length xs - k - m = 0" and "max k (length xs - m) = k"
    by simp_all
  then show ?thesis
    by (simp add: last_rows_def)
qed

lemma tail_from:
  assumes "wf_frame d"
  shows "tail m \<lparr>index = drop k (index d),
                 columns = map (\<lambda>c. (fst c, drop k (snd c))) (columns d)\<rparr>
     = \<lparr>index = drop (max k (nrows d - m)) (index d),
        columns = map (\<lambda>c. (fst c, drop (max k (nrows d - m)) (snd c))) (columns d)\<rparr>"
proof -
  have "map (\<lambda>c. (fst c, last_rows m (snd c))) (map (\<lambda>c. (fst c, drop k (snd c))) (columns d))
      = map (\<lambda>c. (fst c, drop (max k (nrows d - m)) (snd c))) (columns d)"
    unfolding map_map
  proof (rule map_cong [OF refl])
    fix c
    assume "c \<in> set (columns d)"
    then have "length (snd c) = nrows d"
      using assms(1) by (simp add: wf_frame_def list_all_iff nrows_def)
    then show "((\<lambda>c. (fst c, last_rows m (snd c))) \<circ> (\<lambda>c. (fst c, drop k (snd c)))) c
        = (fst c, drop (max k (nrows d - m)) (snd c))"
      by (simp add: last_rows_drop)
  qed
  then show ?thesis
    by (simp add: tail_def last_rows_drop nrows_def)
qed

lemma select_map_upt:
  "select (map P [0..<length xs]) xs = map ((!) xs) (filter P [0..<length xs])"
proof (induction xs rule: rev_induct)
  case Nil
  then show ?case by (simp add: select_def)
next
  case (snoc x xs)
  have "select (map P [0..<length (xs @ [x])]) (xs @ [x])
      = select (map P [0..<length xs] @ [P (length xs)]) (xs @ [x])"
    by simp
  also have "\<dots> = select (map P [0..<length xs]) xs @ (if P (length xs) then [x] else [])"
    by (rule select_snoc) simp
  also have "\<dots> = map ((!) xs) (filter P [0..<length xs]) @ (if P (length xs) then [x] else [])"
    by (simp only: snoc.IH)
  also have "map ((!) xs) (filter P [0..<length xs])
      = map ((!) (xs @ [x])) (filter P [0..<length xs])"
    by (rule map_cong) (auto simp: nth_append)
  finally show ?case
    by simp
qed

lemma dropna_kept:
  assumes "wf_frame d" and "complete_rows d = map P [0..<nrows d]"
  shows "dropna d = \<lparr>index = map ((!) (index d)) (filter P [0..<nrows d]),
                     columns = map (\<lambda>c. (fst c, map ((!) (snd c)) (filter P [0..<nrows d])))
                                 (columns d)\<rparr>"
proof -
  have "select (complete_rows d) (index d) = map ((!) (index d)) (filter P [0..<nrows d])"
    unfolding assms(2) nrows_def by (rule select_map_upt)
  moreover have "map (\<lambda>c. (fst c, select (complete_rows d) (snd c))) (columns d)
      = map (\<lambda>c. (fst c, map ((!) (snd c)) (filter P [0..<nrows d]))) (columns d)"
  proof (rule map_cong [OF refl])
    fix c
    assume "c \<in> set (columns d)"
    then have "length (snd c) = nrows d"
      using assms(1) by (simp add: wf_frame_def list_all_iff nrows_def)
    then show "(fst c, select (complete_rows d) (snd c))
        = (fst c, map ((!) (snd c)) (filter P [0..<nrows d]))"
      unfolding assms(2) using select_map_upt [of P "snd c"] by simp
  qed
  ultimately show ?thesis
    by (simp add: dropna_def Let_def)
qed

lemma tail_kept:
  "tail m \<lparr>index = map f kept, columns = map (\<lambda>c. (fst c, map (g c) kept)) cs\<rparr>
     = \<lparr>index = map f (last_rows m kept),
        columns = map (\<lambda>c. (fst c, map (g c) (last_rows m kept))) cs\<rparr>"
  by (simp add: tail_def last_rows_def drop_map comp_def)

lemma set_update:
  assumes "distinct (map fst al)"
  shows "set (AList.update k v al) = insert (k, v) {c \<in> set al. fst c \<noteq> k}"
  using assms by (induction al) (auto simp: image_iff)

lemma enriched_column_set:
  assumes "wf_frame df" and "column df ''Close'' = Some close"
    and "snd (calculate_indicators df) = Inr df'"
  shows "set (columns df') =
     {(''SMA_50'', rolling_mean 50 close), (''EMA_21'', ewm_mean 21 close),
      (''Volatility_50'', rolling_std 50 (pct_change close))}
     \<union> {c \<in> set (columns df). fst c \<notin> {''SMA_50'', ''EMA_21'', ''Volatility_50''}}"
proof -
  let ?a1 = "AList.update ''SMA_50'' (rolling_mean 50 close) (columns df)"
  let ?a2 = "AList.update ''EMA_21'' (ewm_mean 21 close) ?a1"
  have d0: "distinct (map fst (columns df))"
    using assms(1) by (simp add: wf_frame_def)
  then have d1: "distinct (map fst ?a1)"
    by (rule distinct_update)
  then have d2: "distinct (map fst ?a2)"
    by (rule distinct_update)
  have eq: "columns df' = AList.update ''Volatility_50'' (rolling_std 50 (pct_change close)) ?a2"
    using assms(3) unfolding calculate_indicators_eq [OF assms(2)]
    by (auto simp: columns_setitem)
  show ?thesis
    unfolding eq set_update [OF d2] set_update [OF d1] set_update [OF d0] by auto
qed

lemma enriched_complete_rows:
  assumes "wf_frame df" and "column df ''Close'' = Some (map Some C)"
    and "\<forall>x\<in>set C. x \<noteq> 0" and "returns_in_range C"
    and "snd (calculate_indicators df) = Inr df'"
  shows "complete_rows df' =
     map (\<lambda>i. 50 \<le> i \<and> list_all (\<lambda>c. fst c \<in> {''SMA_50'', ''EMA_21'', ''Volatility_50''}
                                    \<or> snd c ! i \<noteq> None) (columns df))
       [0..<nrows df']"
proof (rule nth_equalityI)
  show "length (complete_rows df') =
      length (map (\<lambda>i. 50 \<le> i \<and> list_all (\<lambda>c. fst c \<in> {''SMA_50'', ''EMA_21'', ''Volatility_50''}
                                    \<or> snd c ! i \<noteq> None) (columns df)) [0..<nrows df'])"
    by (simp add: length_complete_rows)
next
  fix i
  let ?Q = "\<lambda>i. list_all (\<lambda>c. fst c \<in> {''SMA_50'', ''EMA_21'', ''Volatility_50''}
                                    \<or> snd c ! i \<noteq> None) (columns df)"
  assume "i < length (complete_rows df')"
  then have i': "i < nrows df'"
    by (simp add: length_complete_rows)
  obtain d where "snd (calculate_indicators df) = Inr d" and "index d = index df"
    using enriched_columns [OF assms(2)] by blast
  then have n: "nrows df' = nrows df"
    using assms(5) by (simp add: nrows_def)
  have len: "length C = nrows df"
    using column_length [OF assms(1,2)] by simp
  have i: "i < nrows df" "i < length C"
    using i' n len by simp_all
  note cols = enriched_column_set [OF assms(1,2,5)]
  have "complete_rows df' ! i = (50 \<le> i \<and> ?Q i)"
  proof (cases "50 \<le> i")
    case True
    have sma: "rolling_mean 50 (map Some C) ! i \<noteq> None"
      using True i(2) by (simp add: rolling_mean_present)
    have ema: "ewm_mean 21 (map Some C) ! i \<noteq> None"
      using i(2) by (simp add: ewm_mean_present del: sum.atMost_Suc)
    have vol: "rolling_std 50 (pct_change (map Some C)) ! i \<noteq> None"
      using True i(2) by (simp add: rolling_std_returns [OF assms(3,4)] del: upt_Suc)
    have "list_all (\<lambda>c. snd c ! i \<noteq> None) (columns df') \<longleftrightarrow> ?Q i"
      unfolding list_all_iff
    proof
      assume all: "\<forall>c\<in>set (columns df'). snd c ! i \<noteq> None"
      show "\<forall>c\<in>set (columns df). fst c \<in> {''SMA_50'', ''EMA_21'', ''Volatility_50''}
          \<or> snd c ! i \<noteq> None"
      proof
        fix c
        assume c: "c \<in> set (columns df)"
        show "fst c \<in> {''SMA_50'', ''EMA_21'', ''Volatility_50''} \<or> snd c ! i \<noteq> None"
        proof (cases "fst c \<in> {''SMA_50'', ''EMA_21'', ''Volatility_50''}")
          case True
          then show ?thesis ..
        next
          case False
          with c have "c \<in> set (columns df')"
            unfolding cols by (intro UnI2 CollectI conjI)
          with all have "snd c ! i \<noteq> None" ..
          then show ?thesis ..
        qed
      qed
    next
      assume rest: "\<forall>c\<in>set (columns df). fst c \<in> {''SMA_50'', ''EMA_21'', ''Volatility_50''}
          \<or> snd c ! i \<noteq> None"
      show "\<forall>c\<in>set (columns df'). snd c ! i \<noteq> None"
      proof
        fix c
        assume "c \<in> set (columns df')"
        then consider "c = (''SMA_50'', rolling_mean 50 (map Some C))"
          | "c = (''EMA_21'', ewm_mean 21 (map Some C))"
          | "c = (''Volatility_50'', rolling_std 50 (pct_change (map Some C)))"
          | "c \<in> set (columns df)" "fst c \<notin> {''SMA_50'', ''EMA_21'', ''Volatility_50''}"
          unfolding cols Un_iff insert_iff empty_iff mem_Collect_eq by (elim disjE conjE FalseE)
        then show "snd c ! i \<noteq> None"
        proof cases
          case 1
          then show ?thesis using sma by (simp only: snd_conv) simp
        next
          case 2
          then show ?thesis using ema by (simp only: snd_conv) simp
        next
          case 3
          then show ?thesis using vol by (simp only: snd_conv) simp
        next
          case 4
          from rest 4(1) have "fst c \<in> {''SMA_50'', ''EMA_21'', ''Volatility_50''}
              \<or> snd c ! i \<noteq> None" ..
          then show ?thesis
          proof
            assume "fst c \<in> {''SMA_50'', ''EMA_21'', ''Volatility_50''}"
            with 4(2) show ?thesis ..
          qed
        qed
      qed
    qed
    then show ?thesis
      using True i' by (simp add: complete_rows_nth)
  next
    case False
    then have "\<not> complete_rows df' ! i"
      using warmup_rows_incomplete [OF assms(1,2,5) _ i(1)] by simp
    then show ?thesis
      using False by simp
  qed
  then show "complete_rows df' ! i =
      map (\<lambda>i. 50 \<le> i \<and> ?Q i) [0..<nrows df'] ! i"
    using i' by simp
qed

subsection \<open>Constant series\<close>

lemma rolling_mean_constant:
  "rolling_mean 50 (replicate n (Some p)) = replicate (min 49 n) None @ replicate (n - 49) (Some p)"
proof -
  have "(\<Sum>j = Suc i - 50..i. replicate n p ! j) / 50 = p" if "i < n" and "\<not> i < 49" for i
  proof -
    have "(\<Sum>j = Suc i - 50..i. replicate n p ! j) = (\<Sum>j = Suc i - 50..i. p)"
      using that(1) by (intro sum.cong) simp_all
    also have "\<dots> = 50 * p"
      using that(2) by simp
    finally show ?thesis
      by simp
  qed
  then have "map (\<lambda>i. if Suc i < 50 then None
        else Some ((\<Sum>j = Suc i - 50..i. replicate n p ! j) / real 50)) [0..<n]
      = replicate (min 49 n) None @ replicate (n - 49) (Some p)"
    by (intro constant_map_upt) auto
  then show ?thesis
    using rolling_mean_present [of 50 "replicate n p"] by simp
qed

lemma ewm_mean_constant:
  "ewm_mean 21 (replicate n (Some p)) = replicate n (Some p)"
proof -
  let ?f = "1 - 1 / (1 + 21) :: real"
  have "(\<Sum>j\<le>i. ?f ^ (i - j) * replicate n p ! j) / (\<Sum>j\<le>i. ?f ^ (i - j)) = p"
    if "i < n" for i
  proof -
    have "(\<Sum>j\<le>i. ?f ^ (i - j) * replicate n p ! j) = (\<Sum>j\<le>i. ?f ^ (i - j) * p)"
      using that by (intro sum.cong) simp_all
    also have "\<dots> = (\<Sum>j\<le>i. ?f ^ (i - j)) * p"
      by (simp only: sum_distrib_right)
    finally show ?thesis
      using weight_sum_pos [of ?f i] by simp
  qed
  then have "map (\<lambda>i. Some ((\<Sum>j\<le>i. ?f ^ (i - j) * replicate n p ! j)
        / (\<Sum>j\<le>i. ?f ^ (i - j)))) [0..<n]
      = replicate (min 0 n) None @ replicate (n - 0) (Some p)"
    by (intro constant_map_upt) simp
  then show ?thesis
    using ewm_mean_present [of 21 "replicate n p"] by simp
qed

lemma rolling_std_constant:
  assumes "p \<noteq> 0"
  shows "rolling_std 50 (pct_change (replicate n (Some p)))
     = replicate (min 50 n) None @ replicate (n - 50) (Some 0)"
proof -
  let ?C = "replicate n p"
  have nz: "\<forall>x\<in>set ?C. x \<noteq> 0"
    using assms by simp
  have "sample_std (map (\<lambda>j. ?C ! j / ?C ! (j - 1) - 1) [i - 49..<Suc i]) = 0"
    if "i < n" for i
  proof -
    have "map (\<lambda>j. ?C ! j / ?C ! (j - 1) - 1) [i - 49..<Suc i] = map (\<lambda>j. 0) [i - 49..<Suc i]"
    proof (rule map_cong [OF refl])
      fix j
      assume "j \<in> set [i - 49..<Suc i]"
      then have "j < n" and "j - 1 < n"
        using that by auto
      then show "?C ! j / ?C ! (j - 1) - 1 = 0"
        using assms by (simp only: nth_replicate) simp
    qed
    then show ?thesis
      by (simp only: map_replicate_const sample_std_zeros)
  qed
  then have "map (\<lambda>i. if i < 50 then None
        else Some (sample_std (map (\<lambda>j. ?C ! j / ?C ! (j - 1) - 1) [i - 49..<Suc i]))) [0..<n]
      = replicate (min 50 n) None @ replicate (n - 50) (Some 0)"
    by (intro constant_map_upt) simp
  then show ?thesis
    using rolling_std_returns [OF nz constant_in_range [OF assms]] by simp
qed

lemma kept_rows:
  assumes "wf_frame df" and "column df ''Close'' = Some (map Some C)"
    and "\<forall>x\<in>set C. x \<noteq> 0" and "returns_in_range C"
    and "snd (calculate_indicators df) = Inr df'"
    and "kept = filter (\<lambda>i. 50 \<le> i \<and> list_all (\<lambda>c. fst c \<in> {''SMA_50'', ''EMA_21'',
            ''Volatility_50''} \<or> snd c ! i \<noteq> None) (columns df)) [0..<nrows df]"
  shows "dropna df' = \<lparr>index = map ((!) (index df)) kept,
                       columns = map (\<lambda>c. (fst c, map ((!) (snd c)) kept)) (columns df')\<rparr>"
    and "list_all (\<lambda>c. list_all (\<lambda>x. x \<noteq> None) (snd c)) (columns (dropna df'))"
    and "tail 5 (dropna df') = \<lparr>index = map ((!) (index df)) (last_rows 5 kept),
           columns = map (\<lambda>c. (fst c, map ((!) (snd c)) (last_rows 5 kept))) (columns df')\<rparr>"
proof -
  let ?P = "\<lambda>i. 50 \<le> i \<and> list_all (\<lambda>c. fst c \<in> {''SMA_50'', ''EMA_21'',
            ''Volatility_50''} \<or> snd c ! i \<noteq> None) (columns df)"
  obtain d where "snd (calculate_indicators df) = Inr d" and "index d = index df"
    using enriched_columns [OF assms(2)] by blast
  then have idx: "index df' = index df"
    using assms(5) by simp
  then have n: "nrows df' = nrows df"
    by (simp add: nrows_def)
  have wf: "wf_frame df'"
    using assms(5) wf_frame_enriched [OF assms(1,2)]
    unfolding calculate_indicators_eq [OF assms(2)] by simp
  have rows: "complete_rows df' = map ?P [0..<nrows df']"
    using assms(1-5) by (rule enriched_complete_rows)
  show filtered: "dropna df' = \<lparr>index = map ((!) (index df)) kept,
      columns = map (\<lambda>c. (fst c, map ((!) (snd c)) kept)) (columns df')\<rparr>"
    using dropna_kept [OF wf rows] unfolding assms(6) n idx .
  show "list_all (\<lambda>c. list_all (\<lambda>x. x \<noteq> None) (snd c)) (columns (dropna df'))"
  proof -
    have "list_all (\<lambda>x. x \<noteq> None) (map ((!) (snd c)) kept)" if c: "c \<in> set (columns df')" for c
      unfolding list_all_iff
    proof
      fix x
      assume "x \<in> set (map ((!) (snd c)) kept)"
      then obtain i where i: "i \<in> set kept" and x: "x = snd c ! i"
        by auto
      from i have "i < nrows df'" and "?P i"
        unfolding assms(6) n by simp_all
      then have "complete_rows df' ! i"
        unfolding rows by simp
      then have "list_all (\<lambda>c. snd c ! i \<noteq> None) (columns df')"
        using \<open>i < nrows df'\<close> by (simp add: complete_rows_nth)
      then have "snd c ! i \<noteq> None"
        using c unfolding list_all_iff by (rule bspec)
      then show "x \<noteq> None"
        unfolding x .
    qed
    then show ?thesis
      unfolding filtered by (simp add: list_all_iff)
  qed
  show "tail 5 (dropna df') = \<lparr>index = map ((!) (index df)) (last_rows 5 kept),
      columns = map (\<lambda>c. (fst c, map ((!) (snd c)) (last_rows 5 kept))) (columns df')\<rparr>"
    unfolding filtered by (rule tail_kept)
qed

lemma kept_rows_without_holes:
  assumes "wf_frame df" and "column df ''Close'' = Some (map Some C)"
    and "\<forall>x\<in>set C. x \<noteq> 0" and "returns_in_range C"
    and "snd (calculate_indicators df) = Inr df'"
    and "list_all (\<lambda>c. list_all (\<lambda>x. x \<noteq> None) (snd c)) (columns df)"
  shows "filter (\<lambda>i. 50 \<le> i \<and> list_all (\<lambda>c. fst c \<in> {''SMA_50'', ''EMA_21'',
            ''Volatility_50''} \<or> snd c ! i \<noteq> None) (columns df)) [0..<nrows df]
         = [50..<nrows df]"
    and "dropna df' = \<lparr>index = drop 50 (index df),
                       columns = map (\<lambda>c. (fst c, drop 50 (snd c))) (columns df')\<rparr>"
    and "tail 5 (dropna df') = \<lparr>index = drop (max 50 (nrows df - 5)) (index df),
           columns = map (\<lambda>c. (fst c, drop (max 50 (nrows df - 5)) (snd c))) (columns df')\<rparr>"
proof -
  let ?P = "\<lambda>i. 50 \<le> i \<and> list_all (\<lambda>c. fst c \<in> {''SMA_50'', ''EMA_21'',
            ''Volatility_50''} \<or> snd c ! i \<noteq> None) (columns df)"
  obtain d where "snd (calculate_indicators df) = Inr d" and "index d = index df"
    using enriched_columns [OF assms(2)] by blast
  then have idx: "index df' = index df"
    using assms(5) by simp
  then have n: "nrows df' = nrows df"
    by (simp add: nrows_def)
  have wf: "wf_frame df'"
    using assms(5) wf_frame_enriched [OF assms(1,2)]
    unfolding calculate_indicators_eq [OF assms(2)] by simp
  have P: "?P i \<longleftrightarrow> \<not> i < 50" if "i \<in> set [0..<nrows df]" for i
  proof -
    have "snd c ! i \<noteq> None" if "c \<in> set (columns df)" for c
    proof -
      have "length (snd c) = nrows df" and "list_all (\<lambda>x. x \<noteq> None) (snd c)"
        using assms(1,6) that by (simp_all add: wf_frame_def list_all_iff nrows_def)
      then show ?thesis
        using \<open>i \<in> set [0..<nrows df]\<close> by (simp add: list_all_length)
    qed
    then have "list_all (\<lambda>c. fst c \<in> {''SMA_50'', ''EMA_21'', ''Volatility_50''}
        \<or> snd c ! i \<noteq> None) (columns df)"
      unfolding list_all_iff by (intro ballI disjI2)
    then show ?thesis
      by (simp only: simp_thms not_less)
  qed
  have "filter ?P [0..<nrows df] = filter (\<lambda>i. \<not> i < 50) [0..<nrows df]"
    by (rule filter_cong [OF refl]) (rule P)
  then show kept: "filter ?P [0..<nrows df] = [50..<nrows df]"
    by (simp only: filter_upt_ge)
  have "map ?P [0..<nrows df] = map (\<lambda>i. 50 \<le> i) [0..<nrows df]"
    by (rule map_cong [OF refl]) (simp only: P not_less)
  then have rows: "complete_rows df' = map (\<lambda>i. 50 \<le> i) [0..<nrows df']"
    using enriched_complete_rows [OF assms(1-5)] unfolding n by simp
  show filtered: "dropna df' = \<lparr>index = drop 50 (index df),
      columns = map (\<lambda>c. (fst c, drop 50 (snd c))) (columns df')\<rparr>"
    using dropna_from [OF wf rows] idx by simp
  show "tail 5 (dropna df') = \<lparr>index = drop (max 50 (nrows df - 5)) (index df),
      columns = map (\<lambda>c. (fst c, drop (max 50 (nrows df - 5)) (snd c))) (columns df')\<rparr>"
    using tail_from [OF wf, of 5 50] idx n unfolding filtered by simp
qed

text \<open>
  Claim C4, as amended. For a table of \<open>n\<close> rows whose closing prices are all present and
  nonzero, with returns in range, \<^verbatim>\<open>dropna\<close> keeps exactly the rows at the positions from
  50 on in which no column of the acquired table is missing, in their order; no cell
  of the kept rows is missing (so the three indicators are defined in each); and the
  table printed is the last five of the kept rows, or all of them when they are fewer.
  When no cell of the acquired table is missing, the kept rows are those from position
  50 on, \<open>n - 50\<close> rows (none when \<open>n \<le> 50\<close>), and \<open>min 5 (n - 50)\<close> rows are printed.
\<close>

theorem filtered_rows_from_50:
  assumes "wf_frame df" and "column df ''Close'' = Some (map Some C)"
    and "\<forall>x\<in>set C. x \<noteq> 0" and "returns_in_range C"
  shows "\<exists>df' kept. snd (calculate_indicators df) = Inr df'
     \<and> kept = filter (\<lambda>i. 50 \<le> i \<and> list_all (\<lambda>c. fst c \<in> {''SMA_50'', ''EMA_21'',
                 ''Volatility_50''} \<or> snd c ! i \<noteq> None) (columns df)) [0..<nrows df]
     \<and> dropna df' = \<lparr>index = map ((!) (index df)) kept,
                      columns = map (\<lambda>c. (fst c, map ((!) (snd c)) kept)) (columns df')\<rparr>
     \<and> list_all (\<lambda>c. list_all (\<lambda>x. x \<noteq> None) (snd c)) (columns (dropna df'))
     \<and> analyze_performance df' =
         [Text (CHR 0x0A # ''--- Analysis Complete ---''),
          Text ''Displaying the last 5 days of data with indicators:'',
          Table \<lparr>index = map ((!) (index df)) (last_rows 5 kept),
                 columns = map (\<lambda>c. (fst c, map ((!) (snd c)) (last_rows 5 kept)))
                             (columns df')\<rparr>]
     \<and> (list_all (\<lambda>c. list_all (\<lambda>x. x \<noteq> None) (snd c)) (columns df) \<longrightarrow>
          kept = [50..<nrows df]
        \<and> dropna df' = \<lparr>index = drop 50 (index df),
                         columns = map (\<lambda>c. (fst c, drop 50 (snd c))) (columns df')\<rparr>
        \<and> nrows (dropna df') = nrows df - 50
        \<and> analyze_performance df' =
            [Text (CHR 0x0A # ''--- Analysis Complete ---''),
             Text ''Displaying the last 5 days of data with indicators:'',
             Table \<lparr>index = drop (max 50 (nrows df - 5)) (index df),
                    columns = map (\<lambda>c. (fst c, drop (max 50 (nrows df - 5)) (snd c)))
                                (columns df')\<rparr>]
        \<and> nrows (tail 5 (dropna df')) = min 5 (nrows df - 50))"
proof -
  let ?kept = "filter (\<lambda>i. 50 \<le> i \<and> list_all (\<lambda>c. fst c \<in> {''SMA_50'', ''EMA_21'',
                 ''Volatility_50''} \<or> snd c ! i \<noteq> None) (columns df)) [0..<nrows df]"
  obtain df' where run: "snd (calculate_indicators df) = Inr df'"
    using enriched_columns [OF assms(2)] by blast
  note general = kept_rows [OF assms run refl]
  have report: "analyze_performance df' =
         [Text (CHR 0x0A # ''--- Analysis Complete ---''),
          Text ''Displaying the last 5 days of data with indicators:'',
          Table \<lparr>index = map ((!) (index df)) (last_rows 5 ?kept),
                 columns = map (\<lambda>c. (fst c, map ((!) (snd c)) (last_rows 5 ?kept)))
                             (columns df')\<rparr>]"
    unfolding analyze_performance_def Let_def general(3) ..
  have whole: "list_all (\<lambda>c. list_all (\<lambda>x. x \<noteq> None) (snd c)) (columns df) \<longrightarrow>
        ?kept = [50..<nrows df]
        \<and> dropna df' = \<lparr>index = drop 50 (index df),
                         columns = map (\<lambda>c. (fst c, drop 50 (snd c))) (columns df')\<rparr>
        \<and> nrows (dropna df') = nrows df - 50
        \<and> analyze_performance df' =
            [Text (CHR 0x0A # ''--- Analysis Complete ---''),
             Text ''Displaying the last 5 days of data with indicators:'',
             Table \<lparr>index = drop (max 50 (nrows df - 5)) (index df),
                    columns = map (\<lambda>c. (fst c, drop (max 50 (nrows df - 5)) (snd c)))
                                (columns df')\<rparr>]
        \<and> nrows (tail 5 (dropna df')) = min 5 (nrows df - 50)"
  proof
    assume "list_all (\<lambda>c. list_all (\<lambda>x. x \<noteq> None) (snd c)) (columns df)"
    note special = kept_rows_without_holes [OF assms run this]
    have "nrows (dropna df') = nrows df - 50"
      unfolding special(2) by (simp add: nrows_def)
    moreover have "nrows (tail 5 (dropna df')) = min 5 (nrows df - 50)"
      unfolding special(3) by (simp add: nrows_def)
    moreover have "analyze_performance df' =
            [Text (CHR 0x0A # ''--- Analysis Complete ---''),
             Text ''Displaying the last 5 days of data with indicators:'',
             Table \<lparr>index = drop (max 50 (nrows df - 5)) (index df),
                    columns = map (\<lambda>c. (fst c, drop (max 50 (nrows df - 5)) (snd c)))
                                (columns df')\<rparr>]"
      unfolding analyze_performance_def Let_def special(3) ..
    ultimately show "?kept = [50..<nrows df]
        \<and> dropna df' = \<lparr>index = drop 50 (index df),
                         columns = map (\<lambda>c. (fst c, drop 50 (snd c))) (columns df')\<rparr>
        \<and> nrows (dropna df') = nrows df - 50
        \<and> analyze_performance df' =
            [Text (CHR 0x0A # ''--- Analysis Complete ---''),
             Text ''Displaying the last 5 days of data with indicators:'',
             Table \<lparr>index = drop (max 50 (nrows df - 5)) (index df),
                    columns = map (\<lambda>c. (fst c, drop (max 50 (nrows df - 5)) (snd c)))
                                (columns df')\<rparr>]
        \<and> nrows (tail 5 (dropna df')) = min 5 (nrows df - 50)"
      using special(1,2) by (intro conjI)
  qed
  show ?thesis
    by (intro exI [of _ df'] exI [of _ ?kept] conjI run refl general(1,2) report whole)
qed

lemma enriched_other_column:
  assumes "column df ''Close'' = Some close" and "snd (calculate_indicators df) = Inr df'"
    and "k \<notin> {''SMA_50'', ''EMA_21'', ''Volatility_50''}"
  shows "column df' k = column df k"
  using assms(2,3) unfolding calculate_indicators_eq [OF assms(1)]
  by (auto simp: column_setitem)

lemma wf_constant_frame: "wf_frame (constant_frame n p)"
  by (simp add: wf_frame_def constant_frame_def close_frame_def)

lemma constant_frame_close: "column (constant_frame n p) ''Close'' = Some (replicate n (Some p))"
  by (simp add: constant_frame_def close_frame_def column_def)

lemma holed_kept:
  "filter (\<lambda>i. 50 \<le> i \<and> list_all (\<lambda>c. fst c \<in> {''SMA_50'', ''EMA_21'',
       ''Volatility_50''} \<or> snd c ! i \<noteq> None)
         (columns (volume_frame 60 100 (replicate 57 (Some 1) @ None # replicate 2 (Some 1)))))
     [0..<nrows (volume_frame 60 100 (replicate 57 (Some 1) @ None # replicate 2 (Some 1)))]
   = [50, 51, 52, 53, 54, 55, 56, 58, 59]"
  by code_simp

lemma holed_dates:
  "map ((!) (index (volume_frame 60 100 (replicate 57 (Some 1) @ None # replicate 2 (Some 1)))))
     [50, 51, 52, 53, 54, 55, 56, 58, 59] = [50, 51, 52, 53, 54, 55, 56, 58, 59]"
  by code_simp

text \<open>The 60 rows of constant price 100: 10 rows are kept and the rows 55 to 59 are
  printed, with the indicators 100, 100 and 0. The same rows with a column \<^verbatim>\<open>Volume\<close>
  that is missing in row 57: the rows 50 to 59 but 57 are kept, and the rows 54, 55, 56,
  58 and 59 are printed.\<close>

theorem filtered_rows_from_50_witness:
  "(\<exists>df'. snd (calculate_indicators (constant_frame 60 100)) = Inr df'
     \<and> nrows (dropna df') = 10
     \<and> analyze_performance df' =
         [Text (CHR 0x0A # ''--- Analysis Complete ---''),
          Text ''Displaying the last 5 days of data with indicators:'',
          Table \<lparr>index = [55, 56, 57, 58, 59],
                 columns = [(''Close'', replicate 5 (Some 100)),
                            (''SMA_50'', replicate 5 (Some 100)),
                            (''EMA_21'', replicate 5 (Some 100)),
                            (''Volatility_50'', replicate 5 (Some 0))]\<rparr>])
   \<and> (\<exists>df'. snd (calculate_indicators
             (volume_frame 60 100 (replicate 57 (Some 1) @ None # replicate 2 (Some 1))))
           = Inr df'
     \<and> index (dropna df') = [50, 51, 52, 53, 54, 55, 56, 58, 59]
     \<and> index (tail 5 (dropna df')) = [54, 55, 56, 58, 59])"
proof
  show "\<exists>df'. snd (calculate_indicators (constant_frame 60 100)) = Inr df'
     \<and> nrows (dropna df') = 10
     \<and> analyze_performance df' =
         [Text (CHR 0x0A # ''--- Analysis Complete ---''),
          Text ''Displaying the last 5 days of data with indicators:'',
          Table \<lparr>index = [55, 56, 57, 58, 59],
                 columns = [(''Close'', replicate 5 (Some 100)),
                            (''SMA_50'', replicate 5 (Some 100)),
                            (''EMA_21'', replicate 5 (Some 100)),
                            (''Volatility_50'', replicate 5 (Some 0))]\<rparr>]"
  proof -
    let ?df = "constant_frame 60 100"
    have nz: "\<forall>x\<in>set (replicate 60 (100::real)). x \<noteq> 0"
      by simp
    have present: "list_all (\<lambda>c. list_all (\<lambda>x. x \<noteq> None) (snd c)) (columns ?df)"
      by (simp add: constant_frame_def close_frame_def list_all_iff)
    have n: "nrows ?df = 60" and idx: "index ?df = map int [0..<60]"
      by (simp_all add: nrows_def constant_frame_def close_frame_def)
    have range: "returns_in_range (replicate 60 (100::real))"
      by (rule constant_in_range) simp
    from filtered_rows_from_50 [OF wf_constant_frame column_constant_frame nz range]
    obtain df' kept where run: "snd (calculate_indicators ?df) = Inr df'"
      and "kept = filter (\<lambda>i. 50 \<le> i \<and> list_all (\<lambda>c. fst c \<in> {''SMA_50'', ''EMA_21'',
                   ''Volatility_50''} \<or> snd c ! i \<noteq> None) (columns ?df)) [0..<nrows ?df]"
      and "dropna df' = \<lparr>index = map ((!) (index ?df)) kept,
                        columns = map (\<lambda>c. (fst c, map ((!) (snd c)) kept)) (columns df')\<rparr>"
      and "list_all (\<lambda>c. list_all (\<lambda>x. x \<noteq> None) (snd c)) (columns (dropna df'))"
      and "analyze_performance df' =
           [Text (CHR 0x0A # ''--- Analysis Complete ---''),
            Text ''Displaying the last 5 days of data with indicators:'',
            Table \<lparr>index = map ((!) (index ?df)) (last_rows 5 kept),
                   columns = map (\<lambda>c. (fst c, map ((!) (snd c)) (last_rows 5 kept)))
                               (columns df')\<rparr>]"
      and whole: "list_all (\<lambda>c. list_all (\<lambda>x. x \<noteq> None) (snd c)) (columns ?df) \<longrightarrow>
        kept = [50..<nrows ?df]
        \<and> dropna df' = \<lparr>index = drop 50 (index ?df),
                           columns = map (\<lambda>c. (fst c, drop 50 (snd c))) (columns df')\<rparr>
        \<and> nrows (dropna df') = nrows ?df - 50
        \<and> analyze_performance df' =
              [Text (CHR 0x0A # ''--- Analysis Complete ---''),
               Text ''Displaying the last 5 days of data with indicators:'',
               Table \<lparr>index = drop (max 50 (nrows ?df - 5)) (index ?df),
                      columns = map (\<lambda>c. (fst c, drop (max 50 (nrows ?df - 5)) (snd c)))
                                  (columns df')\<rparr>]
        \<and> nrows (tail 5 (dropna df')) = min 5 (nrows ?df - 50)"
      by (elim exE conjE)
    note special = whole [rule_format, OF present]
    note df' = special [THEN conjunct2, THEN conjunct2, THEN conjunct1]
      special [THEN conjunct2, THEN conjunct2, THEN conjunct2, THEN conjunct1]
    have "columns df' = [(''Close'', replicate 60 (Some 100)),
        (''SMA_50'', replicate 49 None @ replicate 11 (Some 100)),
        (''EMA_21'', replicate 60 (Some 100)),
        (''Volatility_50'', replicate 50 None @ replicate 10 (Some 0))]"
      using run unfolding calculate_indicators_eq [OF constant_frame_close]
      by (auto simp: columns_setitem rolling_mean_constant ewm_mean_constant rolling_std_constant
          constant_frame_def close_frame_def)
    then show ?thesis
      using run df' unfolding n idx by (simp add: drop_map)
  qed
next
  let ?df = "volume_frame 60 100 (replicate 57 (Some 1) @ None # replicate 2 (Some 1))"
  have "wf_frame ?df" and "column ?df ''Close'' = Some (map Some (replicate 60 100))"
    and "\<forall>x\<in>set (replicate 60 (100::real)). x \<noteq> 0"
    by (simp_all add: volume_frame_def column_def wf_frame_def)
  moreover have "returns_in_range (replicate 60 (100::real))"
    by (rule constant_in_range) simp
  ultimately obtain df' kept where run: "snd (calculate_indicators ?df) = Inr df'"
    and kept: "kept = filter (\<lambda>i. 50 \<le> i \<and> list_all (\<lambda>c. fst c \<in> {''SMA_50'', ''EMA_21'',
                 ''Volatility_50''} \<or> snd c ! i \<noteq> None) (columns ?df)) [0..<nrows ?df]"
    and filtered: "dropna df' = \<lparr>index = map ((!) (index ?df)) kept,
                      columns = map (\<lambda>c. (fst c, map ((!) (snd c)) kept)) (columns df')\<rparr>"
    using filtered_rows_from_50 [of ?df "replicate 60 100"] by blast
  have "index (dropna df') = [50, 51, 52, 53, 54, 55, 56, 58, 59]"
    unfolding filtered kept holed_kept by (simp only: dataframe.simps holed_dates)
  moreover from this have "index (tail 5 (dropna df')) = [54, 55, 56, 58, 59]"
    by (simp add: tail_def last_rows_def)
  ultimately show "\<exists>df'. snd (calculate_indicators ?df) = Inr df'
     \<and> index (dropna df') = [50, 51, 52, 53, 54, 55, 56, 58, 59]
     \<and> index (tail 5 (dropna df')) = [54, 55, 56, 58, 59]"
    using run by (intro exI [of _ df'] conjI)
qed

text \<open>
  Claim C4 as it was stated asks only that the closing prices be present. A table of 51
  rows, all closing prices present, whose column \<^verbatim>\<open>Volume\<close> is missing in the last row
  keeps no row, not \<open>51 - 50 = 1\<close>.
\<close>

theorem filtered_rows_counterexample:
  "column (volume_frame 51 100 (replicate 50 (Some 1) @ [None])) ''Close''
     = Some (replicate 51 (Some 100))
   \<and> (case snd (calculate_indicators (volume_frame 51 100 (replicate 50 (Some 1) @ [None])))
       of Inl e \<Rightarrow> None | Inr df' \<Rightarrow> Some (nrows (dropna df'))) = Some 0"
proof -
  let ?df = "volume_frame 51 100 (replicate 50 (Some 1) @ [None])"
  have close: "column ?df ''Close'' = Some (replicate 51 (Some 100))"
    and vol: "column ?df ''Volume'' = Some (replicate 50 (Some 1) @ [None])"
    and wf: "wf_frame ?df" and n: "nrows ?df = 51"
    by (simp_all add: volume_frame_def column_def wf_frame_def nrows_def)
  obtain df' where df': "snd (calculate_indicators ?df) = Inr df'" "index df' = index ?df"
    using enriched_columns [OF close] by blast
  have vol': "column df' ''Volume'' = Some (replicate 50 (Some 1) @ [None])"
    using enriched_other_column [OF close df'(1), of "''Volume''"] vol by simp
  have n': "nrows df' = 51"
    using df'(2) n by (simp add: nrows_def)
  have "\<not> complete_rows df' ! i" if "i < 51" for i
  proof (cases "i < 50")
    case True
    have "i < nrows ?df"
      using that n by simp
    with wf close df'(1) True show ?thesis
      by (rule warmup_rows_incomplete)
  next
    case False
    then have "i = 50"
      using that by simp
    then show ?thesis
      using incomplete_row [OF _ vol', of 50] n' by (simp add: nth_append)
  qed
  then have "\<forall>b\<in>set (complete_rows df'). \<not> b"
    using n' by (auto simp: in_set_conv_nth length_complete_rows)
  then have "nrows (dropna df') = 0"
    by (simp add: dropna_none nrows_def)
  then show ?thesis
    using close df'(1) by simp
qed

subsection \<open>Missing values outside the indicator columns\<close>



section \<open>What \<^verbatim>\<open>calculate_indicators\<close> leaves unchanged\<close>

lemma update_fresh: "k \<notin> fst ` set al \<Longrightarrow> AList.update k v al = al @ [(k, v)]"
  by (induction al) auto

lemma column_None_iff: "column df k = None \<longleftrightarrow> k \<notin> set (map fst (columns df))"
  by (simp add: column_def map_of_eq_None_iff)

lemma keys_update:
  "map fst (AList.update k v al) = map fst al @ filter (\<lambda>k. k \<notin> set (map fst al)) [k]"
  by (simp add: update_keys)

lemma enriched_names:
  assumes "a \<noteq> b" "a \<noteq> c" "b \<noteq> c"
  shows "map fst (AList.update c w (AList.update b v (AList.update a u al)))
     = map fst al @ filter (\<lambda>k. k \<notin> set (map fst al)) [a, b, c]"
proof -
  let ?new = "\<lambda>k. k \<notin> set (map fst al)"
  have 1: "map fst (AList.update a u al) = map fst al @ filter ?new [a]"
    by (rule keys_update)
  have 2: "map fst (AList.update b v (AList.update a u al))
      = map fst al @ filter ?new [a] @ filter ?new [b]"
    unfolding keys_update [of b] 1 using assms(1) by auto
  have 3: "map fst (AList.update c w (AList.update b v (AList.update a u al)))
      = map fst al @ filter ?new [a] @ filter ?new [b] @ filter ?new [c]"
    unfolding keys_update [of c] 2 using assms(2,3) by auto
  show ?thesis
    unfolding 3 by simp
qed

text \<open>
  Claim C9, as amended. On a table with a column \<^verbatim>\<open>Close\<close>, \<^verbatim>\<open>calculate_indicators\<close>
  leaves the index, the number of rows and every column not named \<^verbatim>\<open>SMA_50\<close>,
  \<^verbatim>\<open>EMA_21\<close> or \<^verbatim>\<open>Volatility_50\<close> as they were; the column names keep their order,
  those of the three names that are new follow them; and when none of the three names
  was a column, the columns are the old ones followed by the three new ones.
\<close>

theorem calculate_indicators_frame:
  assumes "wf_frame df" and "column df ''Close'' = Some close"
  shows "\<exists>df'. snd (calculate_indicators df) = Inr df'
     \<and> index df' = index df \<and> nrows df' = nrows df \<and> wf_frame df'
     \<and> (\<forall>k. k \<notin> {''SMA_50'', ''EMA_21'', ''Volatility_50''} \<longrightarrow> column df' k = column df k)
     \<and> map fst (columns df') = map fst (columns df)
          @ filter (\<lambda>k. k \<notin> set (map fst (columns df))) [''SMA_50'', ''EMA_21'', ''Volatility_50'']
     \<and> (column df ''SMA_50'' = None \<and> column df ''EMA_21'' = None
          \<and> column df ''Volatility_50'' = None \<longrightarrow>
        (\<exists>sma ema vol. columns df' = columns df
           @ [(''SMA_50'', sma), (''EMA_21'', ema), (''Volatility_50'', vol)]))"
proof -
  let ?df' = "setitem (setitem (setitem df ''SMA_50'' (rolling_mean 50 close))
            ''EMA_21'' (ewm_mean 21 close))
            ''Volatility_50'' (rolling_std 50 (pct_change close))"
  have run: "snd (calculate_indicators df) = Inr ?df'"
    by (rule calculate_indicators_eq [OF assms(2)])
  have idx: "index ?df' = index df" and n: "nrows ?df' = nrows df"
    by (simp_all add: index_setitem nrows_setitem)
  have wf: "wf_frame ?df'"
    by (rule wf_frame_enriched [OF assms])
  have others: "\<forall>k. k \<notin> {''SMA_50'', ''EMA_21'', ''Volatility_50''} \<longrightarrow>
      column ?df' k = column df k"
    by (simp add: column_setitem)
  have names: "map fst (columns ?df') = map fst (columns df)
      @ filter (\<lambda>k. k \<notin> set (map fst (columns df))) [''SMA_50'', ''EMA_21'', ''Volatility_50'']"
    unfolding columns_setitem by (rule enriched_names) simp_all
  have fresh: "column df ''SMA_50'' = None \<and> column df ''EMA_21'' = None
      \<and> column df ''Volatility_50'' = None \<longrightarrow>
      (\<exists>sma ema vol. columns ?df' = columns df
         @ [(''SMA_50'', sma), (''EMA_21'', ema), (''Volatility_50'', vol)])"
    unfolding columns_setitem column_None_iff
    by (simp add: update_fresh)
  show ?thesis
    by (rule exI [of _ ?df']) (intro conjI run idx n wf others names fresh)
qed

text \<open>A table of two rows with the columns \<^verbatim>\<open>Close\<close> and \<^verbatim>\<open>Volume\<close>.\<close>

theorem calculate_indicators_frame_witness:
  "\<exists>df'. snd (calculate_indicators
       \<lparr>index = [0, 1],
        columns = [(''Close'', [Some 100, Some 100]), (''Volume'', [Some 5, None])]\<rparr>) = Inr df'
     \<and> index df' = [0, 1] \<and> nrows df' = 2
     \<and> column df' ''Close'' = Some [Some 100, Some 100]
     \<and> column df' ''Volume'' = Some [Some 5, None]
     \<and> map fst (columns df') = [''Close'', ''Volume'', ''SMA_50'', ''EMA_21'', ''Volatility_50'']"
proof -
  let ?df = "\<lparr>index = [0, 1],
        columns = [(''Close'', [Some 100, Some 100]), (''Volume'', [Some 5, None])]\<rparr>"
  have "wf_frame ?df" and "column ?df ''Close'' = Some [Some 100, Some 100]"
    by (simp_all add: wf_frame_def column_def)
  from calculate_indicators_frame [OF this]
  obtain df' where run: "snd (calculate_indicators ?df) = Inr df'"
    and idx: "index df' = index ?df" and n: "nrows df' = nrows ?df"
    and "wf_frame df'"
    and others: "\<forall>k. k \<notin> {''SMA_50'', ''EMA_21'', ''Volatility_50''} \<longrightarrow>
      column df' k = column ?df k"
    and names: "map fst (columns df') = map fst (columns ?df)
      @ filter (\<lambda>k. k \<notin> set (map fst (columns ?df))) [''SMA_50'', ''EMA_21'', ''Volatility_50'']"
    by (elim exE conjE)
  have close: "column df' ''Close'' = Some [Some 100, Some 100]"
    using others [rule_format, of "''Close''"] by (simp add: column_def)
  have volume: "column df' ''Volume'' = Some [Some 5, None]"
    using others [rule_format, of "''Volume''"] by (simp add: column_def)
  have idx': "index df' = [0, 1]" and n': "nrows df' = 2"
    using idx n by (simp_all add: nrows_def)
  have names': "map fst (columns df') =
      [''Close'', ''Volume'', ''SMA_50'', ''EMA_21'', ''Volatility_50'']"
    using names by simp
  show ?thesis
    by (intro exI [of _ df'] conjI run idx' n' close volume names')
qed

text \<open>
  Claim C9 as it was stated says that every column the table had is unchanged. A table
  that has a column \<^verbatim>\<open>SMA_50\<close> already gets that column overwritten.
\<close>

theorem calculate_indicators_frame_counterexample:
  "column (setitem (close_frame [Some 1]) ''SMA_50'' [Some 1]) ''SMA_50'' = Some [Some 1]
   \<and> (case snd (calculate_indicators (setitem (close_frame [Some 1]) ''SMA_50'' [Some 1]))
       of Inl e \<Rightarrow> None | Inr df' \<Rightarrow> column df' ''SMA_50'') = Some [None]"
proof -
  let ?df = "setitem (close_frame [Some 1]) ''SMA_50'' [Some 1]"
  have close: "column ?df ''Close'' = Some [Some 1]"
    by (simp add: setitem_def close_frame_def column_def)
  have "rolling_mean 50 [Some 1] = [None]"
    by (simp add: rolling_mean_def window_def observations_def List.map_filter_simps)
  then show ?thesis
    unfolding calculate_indicators_eq [OF close] by (simp add: column_setitem)
qed

section \<open>The main block on an empty table\<close>

text \<open>
  Claim C5, as amended. When the provider returns an empty table, the run prints the
  two lines of \<^verbatim>\<open>fetch_data\<close> (the first names the instrument and the date range), one
  line that says no data could be downloaded and names the instrument, and the elapsed
  time; it ends without an error, and neither \<^verbatim>\<open>calculate_indicators\<close> nor
  \<^verbatim>\<open>analyze_performance\<close> has printed its first line, so neither was called.
\<close>

theorem empty_acquisition_run:
  assumes "download ticker start end_date = Inr df" and "empty_frame df"
  shows "run download ticker start end_date t0 t1 =
       ([Text (''Fetching data for '' @ ticker @ '' from '' @ start @ '' to '' @ end_date
                @ ''...''),
         Text ''Data fetched successfully!'',
         Text (''Could not download data for '' @ ticker
                @ ''. Please check the symbol and date range.''),
         Elapsed (t1 - t0)], Inr ())
     \<and> Text ''Calculating financial indicators...''
          \<notin> set (fst (run download ticker start end_date t0 t1))
     \<and> Text (CHR 0x0A # ''--- Analysis Complete ---'')
          \<notin> set (fst (run download ticker start end_date t0 t1))"
  using assms by (simp add: run_def fetch_data_def)

text \<open>The main block with a provider that finds nothing.\<close>

theorem empty_acquisition_run_witness:
  "main empty_provider 0 1 =
     ([Text ''Fetching data for NVDA from 2020-01-01 to 2025-01-01...'',
       Text ''Data fetched successfully!'',
       Text ''Could not download data for NVDA. Please check the symbol and date range.'',
       Elapsed 1], Inr ())"
proof -
  have "empty_provider ''NVDA'' ''2020-01-01'' ''2025-01-01'' = Inr (close_frame [])"
    and "empty_frame (close_frame [])"
    by (simp_all add: empty_provider_def empty_frame_def close_frame_def)
  from empty_acquisition_run [of empty_provider "''NVDA''" "''2020-01-01''" "''2025-01-01''"
      "close_frame []" 0 1, OF this]
  show ?thesis
    by (simp add: main_def)
qed

text \<open>
  Claim C5 as it was stated has the line about missing data identify the date range.
  The line is the same for two different date ranges.
\<close>

theorem empty_acquisition_counterexample:
  "fst (run empty_provider ''NVDA'' ''2020-01-01'' ''2025-01-01'' 0 1) ! 2
     = Text ''Could not download data for NVDA. Please check the symbol and date range.''
   \<and> fst (run empty_provider ''NVDA'' ''1999-01-01'' ''1999-12-31'' 0 1) ! 2
     = Text ''Could not download data for NVDA. Please check the symbol and date range.''"
  by (simp add: run_def fetch_data_def empty_provider_def empty_frame_def close_frame_def)

end
